theory Spec2Isabelle
  imports Complex_Main "HOL-Library.Word" "HOL-Library.Multiset"
begin

section \<open>urd: an exporter of load-balancer metrics\<close>

text \<open>
  The program is one Go file, \<^verbatim>\<open>main.go\<close>. Every function of it is embedded below
  under its own name. Strings are byte strings (Go's \<^verbatim>\<open>string\<close>), a Go pointer that
  may be nil is an \<^typ>\<open>'a option\<close>, and everything that ends the process is a value
  of the type \<open>fault\<close>: \<^verbatim>\<open>log.Fatal\<close> (which prints the error and exits) and the
  run-time panics of Go (a nil pointer dereference, an index out of range) together
  with the one panic of the metrics library that the program can reach.
\<close>

datatype fault =
    Fatal string
  | NilDereference
  | IndexOutOfRange
  | CounterDecrease

subsection \<open>Name Resolver: \<^verbatim>\<open>elbNameFromElbDNS\<close>\<close>

text \<open>
  The function compiles the pattern \<^verbatim>\<open>(.*)(?:-[0-9]{6})\<close>, asks for the leftmost
  match and reads capture group 1 of the result without looking at its length. Go's
  \<^verbatim>\<open>regexp\<close> gives the match a backtracking engine finds first: the earliest start,
  and there the longest run for the greedy \<^verbatim>\<open>.*\<close> after which the rest still
  matches. The dot does not match a line feed. The pattern is a constant that
  compiles, so the branch that prints a compile error is never taken.
\<close>

definition isDigit :: "char \<Rightarrow> bool" where
  "isDigit c = (c \<in> set ''0123456789'')"

definition lineFeed :: char where
  "lineFeed = CHR 0x0A"

text \<open>\<^verbatim>\<open>(?:-[0-9]{6})\<close> at the head of a string.\<close>

definition numericGroup :: "string \<Rightarrow> bool" where
  "numericGroup s =
     (case s of
        [] \<Rightarrow> False
      | c # cs \<Rightarrow> c = CHR ''-'' \<and> 6 \<le> length cs \<and> list_all isDigit (take 6 cs))"

text \<open>
  The whole pattern anchored at the head of a string; the result is capture group 1.
  The greedy star first lets the dot take the next byte and falls back to the numeric
  group only when the rest cannot match.
\<close>

fun matchHere :: "string \<Rightarrow> string option" where
  "matchHere [] = None"
| "matchHere (c # cs) =
     (case (if c = lineFeed then None else matchHere cs) of
        Some g \<Rightarrow> Some (c # g)
      | None \<Rightarrow> if numericGroup (c # cs) then Some [] else None)"

text \<open>
  \<^verbatim>\<open>FindStringSubmatch\<close>: the empty (nil) slice when nothing matches, otherwise the
  matched text followed by capture group 1.
\<close>

fun FindStringSubmatch :: "string \<Rightarrow> string list" where
  "FindStringSubmatch [] = []"
| "FindStringSubmatch (c # cs) =
     (case matchHere (c # cs) of
        Some g \<Rightarrow> [g @ take 7 (drop (length g) (c # cs)), g]
      | None \<Rightarrow> FindStringSubmatch cs)"

definition TrimPrefix :: "string \<Rightarrow> string \<Rightarrow> string" where
  "TrimPrefix s prefix =
     (if take (length prefix) s = prefix then drop (length prefix) s else s)"

definition elbNameFromElbDNS :: "string \<Rightarrow> fault + string" where
  "elbNameFromElbDNS elbDNS =
     (let m = FindStringSubmatch elbDNS
      in if 1 < length m then Inr (TrimPrefix (m ! 1) ''internal-'')
         else Inl IndexOutOfRange)"

text \<open>
  The wording of the specification, for comparison: the segment before the first
  numeric group, with the prefix taken off once.
\<close>

fun upToFirstGroup :: "string \<Rightarrow> string" where
  "upToFirstGroup [] = []"
| "upToFirstGroup (c # cs) = (if numericGroup (c # cs) then [] else c # upToFirstGroup cs)"

definition specResolvedName :: "string \<Rightarrow> string" where
  "specResolvedName h = TrimPrefix (upToFirstGroup h) ''internal-''"

text \<open>Whether a numeric group starts anywhere in a string.\<close>

fun containsGroup :: "string \<Rightarrow> bool" where
  "containsGroup [] = False"
| "containsGroup (c # cs) = (numericGroup (c # cs) \<or> containsGroup cs)"


subsection \<open>The orchestrator's objects\<close>

text \<open>
  The client library decodes the orchestrator's answers into structures whose optional
  fields are pointers. The program reads the fields below; a nil pointer it reads
  through is a \<open>NilDereference\<close>. The elements of a decoded list are never nil.
\<close>

record ObjectMeta =
  Name :: "string option"
  Namespace :: "string option"

record ServiceSpec =
  Type :: "string option"

record LoadBalancerIngress =
  Hostname :: "string option"

record LoadBalancerStatus =
  Ingress :: "LoadBalancerIngress list"

record ServiceStatus =
  LoadBalancer :: "LoadBalancerStatus option"

record Service =
  Metadata :: "ObjectMeta option"
  Spec :: "ServiceSpec option"
  Status :: "ServiceStatus option"

record NamespaceObject =
  NamespaceMetadata :: "ObjectMeta option"

record NamespaceList =
  NamespaceItems :: "NamespaceObject list"

record ServiceList =
  ServiceItems :: "Service list"

text \<open>
  A Go call that returns a value and an error is a pair whose second component is the
  error (\<open>None\<close> for nil). The client offers the two listings the program uses.
\<close>

record Client =
  ListNamespaces :: "NamespaceList option \<times> string option"
  ListServices :: "string \<Rightarrow> ServiceList option \<times> string option"

datatype Config = Config string

subsection \<open>The metrics backend\<close>

record Datapoint =
  Sum :: "real option"
  Average :: "real option"
  Maximum :: "real option"
  Minimum :: "real option"

record GetMetricStatisticsInput =
  Dimensions :: "(string \<times> string) list"
  StartTime :: int
  EndTime :: int
  InputMetricName :: string
  InputNamespace :: string
  Period :: int
  Statistics :: "string list"

record GetMetricStatisticsOutput =
  Datapoints :: "Datapoint list"

text \<open>
  Everything outside the process: the environment, the file system, the decoder of
  the configuration, the constructor of the client, and the metrics backend. Times
  are nanoseconds; sample values are real numbers, which stand for the finite
  \<^verbatim>\<open>float64\<close> values the backend reports.
\<close>

record World =
  Getenv :: "string \<Rightarrow> string"
  ReadFile :: "string \<Rightarrow> string \<times> string option"
  Unmarshal :: "string \<Rightarrow> Config \<times> string option"
  NewClient :: "Config \<Rightarrow> Client option \<times> string option"
  GetMetricStatistics ::
    "GetMetricStatisticsInput \<Rightarrow> GetMetricStatisticsOutput option \<times> string option"

text \<open>
  A \<^verbatim>\<open>time.Duration\<close> is a signed 64-bit count of nanoseconds, with the wrapping
  arithmetic of \<^verbatim>\<open>int64\<close>. A \<^verbatim>\<open>time.Time\<close> is an integer count of nanoseconds.
  \<^verbatim>\<open>Add\<close> moves a time by a duration; \<^verbatim>\<open>Sub\<close> is the difference of two times,
  which the library saturates at the largest and the smallest duration.
\<close>

definition Minute :: "64 word" where
  "Minute = 60 * 1000000000"

definition Add :: "int \<Rightarrow> 64 word \<Rightarrow> int" where
  "Add t d = t + sint d"

definition Sub :: "int \<Rightarrow> int \<Rightarrow> 64 word" where
  "Sub t u =
     (if t - u > 2 ^ 63 - 1 then word_of_int (2 ^ 63 - 1)
      else if t - u < - (2 ^ 63) then word_of_int (- (2 ^ 63))
      else word_of_int (t - u))"

subsection \<open>\<^verbatim>\<open>loadClient\<close> and Service Discovery: \<^verbatim>\<open>getAllServices\<close>\<close>

definition loadClient :: "World \<Rightarrow> Client option \<times> string option" where
  "loadClient w =
     (let kubeCfg = Getenv w ''URD_KUBECONFIG_PATH'';
          kubeconfigPath = (if kubeCfg \<noteq> [] then kubeCfg else ''/srv/kubernetes/kubeconfig'')
      in case ReadFile w kubeconfigPath of
           (data, Some err) \<Rightarrow> (None, Some (''read kubeconfig: '' @ err))
         | (data, None) \<Rightarrow>
             (case Unmarshal w data of
                (config, Some err) \<Rightarrow> (None, Some (''unmarshal kubeconfig: '' @ err))
              | (config, None) \<Rightarrow> NewClient w config))"

text \<open>The inner loop: the services of one namespace, appended when load-balanced.\<close>

fun serviceLoop :: "Service list \<Rightarrow> Service list \<Rightarrow> fault + Service list" where
  "serviceLoop [] services = Inr services"
| "serviceLoop (service # rest) services =
     (case Spec service of
        None \<Rightarrow> Inl NilDereference
      | Some sp \<Rightarrow>
          (case Type sp of
             None \<Rightarrow> Inl NilDereference
           | Some t \<Rightarrow>
               serviceLoop rest
                 (if t = ''LoadBalancer'' then services @ [service] else services)))"

text \<open>The outer loop: one listing of services for each namespace.\<close>

fun namespaceLoop :: "Client \<Rightarrow> NamespaceObject list \<Rightarrow> Service list \<Rightarrow> fault + Service list" where
  "namespaceLoop k8sClient [] services = Inr services"
| "namespaceLoop k8sClient (namespace # rest) services =
     (case NamespaceMetadata namespace of
        None \<Rightarrow> Inl NilDereference
      | Some md \<Rightarrow>
          (case Name md of
             None \<Rightarrow> Inl NilDereference
           | Some nm \<Rightarrow>
               (case ListServices k8sClient nm of
                  (svc, Some err) \<Rightarrow> Inl (Fatal err)
                | (None, None) \<Rightarrow> Inl NilDereference
                | (Some svc, None) \<Rightarrow>
                    (case serviceLoop (ServiceItems svc) services of
                       Inl f \<Rightarrow> Inl f
                     | Inr services' \<Rightarrow> namespaceLoop k8sClient rest services'))))"

text \<open>
  The error of \<^verbatim>\<open>loadClient\<close> and of each \<^verbatim>\<open>ListServices\<close> goes to
  \<^verbatim>\<open>log.Fatal\<close>. The error of \<^verbatim>\<open>ListNamespaces\<close> is assigned and never read: the
  program goes on to read \<^verbatim>\<open>namespaces.Items\<close>.
\<close>

definition getAllServices :: "World \<Rightarrow> fault + Service list" where
  "getAllServices w =
     (case loadClient w of
        (k8sClient, Some err) \<Rightarrow> Inl (Fatal err)
      | (None, None) \<Rightarrow> Inl NilDereference
      | (Some k8sClient, None) \<Rightarrow>
          (case ListNamespaces k8sClient of
             (None, err) \<Rightarrow> Inl NilDereference
           | (Some namespaces, err) \<Rightarrow>
               namespaceLoop k8sClient (NamespaceItems namespaces) []))"

subsection \<open>Metric Fetcher: \<^verbatim>\<open>getElbMetric\<close>\<close>

text \<open>
  The result is a pointer to a number: nil when the first data point lacks the
  statistic asked for, or when the statistic is none of the four of the switch.
\<close>

definition getElbMetric :: "World \<Rightarrow> int \<Rightarrow> string \<Rightarrow> string \<Rightarrow> string \<Rightarrow> fault + real option" where
  "getElbMetric w currentTime elbName metricName statisticType =
     (let lastMinute = Add currentTime ((- 1) * Minute)
      in case GetMetricStatistics w
            \<lparr>Dimensions = [(''LoadBalancerName'', elbName)],
             StartTime = lastMinute,
             EndTime = currentTime,
             InputMetricName = metricName,
             InputNamespace = ''AWS/ELB'',
             Period = 60,
             Statistics = [statisticType]\<rparr> of
           (data, Some err) \<Rightarrow> Inl (Fatal err)
         | (None, None) \<Rightarrow> Inl NilDereference
         | (Some data, None) \<Rightarrow>
             if length (Datapoints data) = 0 then Inr (Some 0)
             else
               (let dp = Datapoints data ! 0
                in Inr (if statisticType = ''Sum'' then Sum dp
                        else if statisticType = ''Average'' then Average dp
                        else if statisticType = ''Maximum'' then Maximum dp
                        else if statisticType = ''Minimum'' then Minimum dp
                        else None)))"


subsection \<open>Exported Metric Set\<close>

text \<open>
  \<^verbatim>\<open>init\<close> creates eight vectors of series; a series of a vector is addressed by its
  label values. The metrics library creates a series at its first use (a counter and
  a gauge at 0, a histogram with no observation), \<^verbatim>\<open>Add\<close> on a counter panics on a
  negative number, \<^verbatim>\<open>Set\<close> on a gauge replaces its value, and \<^verbatim>\<open>Observe\<close> files
  one more observation in a histogram.
\<close>

datatype family =
    httpRequestsTotal
  | backendConnectionsErrors
  | healthyHostCount
  | elbLatency
  | requestCount
  | spilloverCount
  | surgeQueueLength
  | unhealthyHostCount

datatype kind = CounterVec | GaugeVec | HistogramVec

fun familyKind :: "family \<Rightarrow> kind" where
  "familyKind httpRequestsTotal = CounterVec"
| "familyKind backendConnectionsErrors = CounterVec"
| "familyKind healthyHostCount = GaugeVec"
| "familyKind elbLatency = HistogramVec"
| "familyKind requestCount = CounterVec"
| "familyKind spilloverCount = CounterVec"
| "familyKind surgeQueueLength = CounterVec"
| "familyKind unhealthyHostCount = GaugeVec"

fun familyName :: "family \<Rightarrow> string" where
  "familyName httpRequestsTotal = ''urd_http_requests_total''"
| "familyName backendConnectionsErrors = ''backend_connection_errors_total''"
| "familyName healthyHostCount = ''urd_healthy_hosts_count''"
| "familyName elbLatency = ''urd_average_elb_latency''"
| "familyName requestCount = ''urd_request_count''"
| "familyName spilloverCount = ''urd_spillovercount_total''"
| "familyName surgeQueueLength = ''urd_surge_queue_length''"
| "familyName unhealthyHostCount = ''urd_unhealthy_hosts_count''"

type_synonym series = "family \<times> string list"

record Registry =
  counters :: "series \<Rightarrow> real option"
  gauges :: "series \<Rightarrow> real option"
  histograms :: "series \<Rightarrow> real list option"

definition emptyRegistry :: Registry where
  "emptyRegistry = \<lparr>counters = Map.empty, gauges = Map.empty, histograms = Map.empty\<rparr>"

definition counterValue :: "Registry \<Rightarrow> series \<Rightarrow> real" where
  "counterValue reg k = (case counters reg k of None \<Rightarrow> 0 | Some c \<Rightarrow> c)"

definition counterAdd :: "family \<Rightarrow> string list \<Rightarrow> real \<Rightarrow> Registry \<Rightarrow> fault + Registry" where
  "counterAdd fam lvs v reg =
     (if v < 0 then Inl CounterDecrease
      else Inr (reg\<lparr>counters := (counters reg)((fam, lvs) \<mapsto> counterValue reg (fam, lvs) + v)\<rparr>))"

definition gaugeSet :: "family \<Rightarrow> string list \<Rightarrow> real \<Rightarrow> Registry \<Rightarrow> fault + Registry" where
  "gaugeSet fam lvs v reg = Inr (reg\<lparr>gauges := (gauges reg)((fam, lvs) \<mapsto> v)\<rparr>)"

definition histogramObserve :: "family \<Rightarrow> string list \<Rightarrow> real \<Rightarrow> Registry \<Rightarrow> fault + Registry" where
  "histogramObserve fam lvs v reg =
     Inr (reg\<lparr>histograms := (histograms reg)((fam, lvs) \<mapsto>
            (case histograms reg (fam, lvs) of None \<Rightarrow> [] | Some obs \<Rightarrow> obs) @ [v])\<rparr>)"

subsection \<open>Metric Catalog: \<^verbatim>\<open>metrics\<close>\<close>

text \<open>
  An entry names a metric of the backend, the statistic to ask for, and a function
  that files a sample. Each function receives the names of the service and of its
  namespace as pointers and reads through both.
\<close>

record elbMetric =
  MetricName :: string
  Statistic :: string
  Prometheus :: "string \<Rightarrow> string option \<Rightarrow> string option \<Rightarrow> real \<Rightarrow> Registry \<Rightarrow> fault + Registry"

definition deref2 :: "string option \<Rightarrow> string option \<Rightarrow> (string \<Rightarrow> string \<Rightarrow> fault + Registry) \<Rightarrow> fault + Registry" where
  "deref2 svcName ns f =
     (case svcName of
        None \<Rightarrow> Inl NilDereference
      | Some sv \<Rightarrow> (case ns of None \<Rightarrow> Inl NilDereference | Some n \<Rightarrow> f sv n))"

definition metrics :: "elbMetric list" where
  "metrics =
    [\<lparr>MetricName = ''HTTPCode_Backend_2XX'', Statistic = ''Sum'',
      Prometheus = (\<lambda>elbName svcName ns v reg.
        deref2 svcName ns (\<lambda>sv n. counterAdd httpRequestsTotal [''2XX'', elbName, sv, n] v reg))\<rparr>,
     \<lparr>MetricName = ''HTTPCode_Backend_3XX'', Statistic = ''Sum'',
      Prometheus = (\<lambda>elbName svcName ns v reg.
        deref2 svcName ns (\<lambda>sv n. counterAdd httpRequestsTotal [''3XX'', elbName, sv, n] v reg))\<rparr>,
     \<lparr>MetricName = ''HTTPCode_Backend_4XX'', Statistic = ''Sum'',
      Prometheus = (\<lambda>elbName svcName ns v reg.
        deref2 svcName ns (\<lambda>sv n. counterAdd httpRequestsTotal [''4XX'', elbName, sv, n] v reg))\<rparr>,
     \<lparr>MetricName = ''HTTPCode_Backend_5XX'', Statistic = ''Sum'',
      Prometheus = (\<lambda>elbName svcName ns v reg.
        deref2 svcName ns (\<lambda>sv n. counterAdd httpRequestsTotal [''5XX'', elbName, sv, n] v reg))\<rparr>,
     \<lparr>MetricName = ''HTTPCode_ELB_4XX'', Statistic = ''Sum'',
      Prometheus = (\<lambda>elbName svcName ns v reg.
        deref2 svcName ns (\<lambda>sv n. counterAdd httpRequestsTotal [''ELB_4XX'', elbName, sv, n] v reg))\<rparr>,
     \<lparr>MetricName = ''HTTPCode_ELB_5XX'', Statistic = ''Sum'',
      Prometheus = (\<lambda>elbName svcName ns v reg.
        deref2 svcName ns (\<lambda>sv n. counterAdd httpRequestsTotal [''ELB_5XX'', elbName, sv, n] v reg))\<rparr>,
     \<lparr>MetricName = ''BackendConnectionErrors'', Statistic = ''Sum'',
      Prometheus = (\<lambda>elbName svcName ns v reg.
        deref2 svcName ns (\<lambda>sv n. counterAdd backendConnectionsErrors [elbName, sv, n] v reg))\<rparr>,
     \<lparr>MetricName = ''HealthyHostCount'', Statistic = ''Average'',
      Prometheus = (\<lambda>elbName svcName ns v reg.
        deref2 svcName ns (\<lambda>sv n. gaugeSet healthyHostCount [elbName, sv, n] v reg))\<rparr>,
     \<lparr>MetricName = ''Latency'', Statistic = ''Average'',
      Prometheus = (\<lambda>elbName svcName ns v reg.
        deref2 svcName ns (\<lambda>sv n. histogramObserve elbLatency [elbName, sv, n] v reg))\<rparr>,
     \<lparr>MetricName = ''RequestCount'', Statistic = ''Sum'',
      Prometheus = (\<lambda>elbName svcName ns v reg.
        deref2 svcName ns (\<lambda>sv n. counterAdd requestCount [elbName, sv, n] v reg))\<rparr>,
     \<lparr>MetricName = ''SpilloverCount'', Statistic = ''Sum'',
      Prometheus = (\<lambda>elbName svcName ns v reg.
        deref2 svcName ns (\<lambda>sv n. counterAdd spilloverCount [elbName, sv, n] v reg))\<rparr>,
     \<lparr>MetricName = ''SurgeQueueLength'', Statistic = ''Maximum'',
      Prometheus = (\<lambda>elbName svcName ns v reg.
        deref2 svcName ns (\<lambda>sv n. counterAdd surgeQueueLength [elbName, sv, n] v reg))\<rparr>,
     \<lparr>MetricName = ''UnHealthyHostCount'', Statistic = ''Average'',
      Prometheus = (\<lambda>elbName svcName ns v reg.
        deref2 svcName ns (\<lambda>sv n. gaugeSet unhealthyHostCount [elbName, sv, n] v reg))\<rparr>]"


subsection \<open>Collection Cycle: \<^verbatim>\<open>collectMetrics\<close>\<close>

text \<open>
  The goroutine \<^verbatim>\<open>getMetric\<close> first evaluates the arguments of the call of
  \<^verbatim>\<open>m.Prometheus\<close>, from left to right: the resolved name, the two name pointers of
  the service, and the number that \<^verbatim>\<open>getElbMetric\<close> points to. \<open>now\<close> is the
  reading of the clock inside \<^verbatim>\<open>getElbMetric\<close>.
\<close>

definition getMetricArguments ::
  "World \<Rightarrow> int \<Rightarrow> elbMetric \<Rightarrow> Service \<Rightarrow> fault + (string \<times> string option \<times> string option \<times> real)" where
  "getMetricArguments w now m s =
     (case Status s of
        None \<Rightarrow> Inl NilDereference
      | Some st \<Rightarrow>
     (case LoadBalancer st of
        None \<Rightarrow> Inl NilDereference
      | Some lb \<Rightarrow>
     (case Ingress lb of
        [] \<Rightarrow> Inl IndexOutOfRange
      | ing # _ \<Rightarrow>
     (case Hostname ing of
        None \<Rightarrow> Inl NilDereference
      | Some h \<Rightarrow>
     (case elbNameFromElbDNS h of
        Inl f \<Rightarrow> Inl f
      | Inr elbName \<Rightarrow>
     (case Metadata s of
        None \<Rightarrow> Inl NilDereference
      | Some md \<Rightarrow>
     (case getElbMetric w now elbName (MetricName m) (Statistic m) of
        Inl f \<Rightarrow> Inl f
      | Inr None \<Rightarrow> Inl NilDereference
      | Inr (Some v) \<Rightarrow> Inr (elbName, Name md, Namespace md, v))))))))"

definition getMetric :: "World \<Rightarrow> int \<Rightarrow> elbMetric \<Rightarrow> Service \<Rightarrow> Registry \<Rightarrow> fault + Registry" where
  "getMetric w now m s reg =
     (case getMetricArguments w now m s of
        Inl f \<Rightarrow> Inl f
      | Inr (elbName, svcName, ns, v) \<Rightarrow> Prometheus m elbName svcName ns v reg)"

text \<open>
  The two nested loops start one goroutine for each service and each entry of the
  catalog, after the wait group has been set to the number of pairs.
\<close>

type_synonym task = "elbMetric \<times> Service"

definition tasksOf :: "Service list \<Rightarrow> task list" where
  "tasksOf services =
     concat (map (\<lambda>service. map (\<lambda>metric. (metric, service)) metrics) services)"

text \<open>
  The state of a cycle in flight: the goroutines that have not returned, the counter
  of the wait group, and the registry. \<open>finished\<close> is a history of the goroutines
  that returned, each with its reading of the clock; the program does not keep it.
\<close>

record CycleState =
  pending :: "task list"
  wg :: int
  registry :: Registry
  finished :: "(task \<times> int) list"

text \<open>
  The goroutines share nothing but the registry, whose operations are atomic, so an
  execution is an order in which they file their samples. A schedule gives that order:
  each entry picks one of the pending goroutines by position and gives its reading of
  the clock; an entry that picks none does nothing. A goroutine that returns calls
  \<^verbatim>\<open>wg.Done\<close>; one that faults ends the process.
\<close>

fun run :: "World \<Rightarrow> (nat \<times> int) list \<Rightarrow> CycleState \<Rightarrow> fault + CycleState" where
  "run w [] st = Inr st"
| "run w ((i, now) # sched) st =
     (if i < length (pending st) then
        (case getMetric w now (fst (pending st ! i)) (snd (pending st ! i)) (registry st) of
           Inl f \<Rightarrow> Inl f
         | Inr reg' \<Rightarrow>
             run w sched
               \<lparr>pending = take i (pending st) @ drop (Suc i) (pending st),
                wg = wg st - 1,
                registry = reg',
                finished = finished st @ [(pending st ! i, now)]\<rparr>)
      else run w sched st)"

text \<open>
  \<^verbatim>\<open>wg.Wait\<close> returns when the counter is zero. A cycle is \<open>Done\<close> when it
  returned, \<open>Waiting\<close> while it is blocked there, \<open>Aborted\<close> when the process ended.
\<close>

datatype outcome = Aborted fault | Waiting CycleState | Done CycleState

fun isDone :: "outcome \<Rightarrow> bool" where
  "isDone (Done st) = True"
| "isDone (Waiting st) = False"
| "isDone (Aborted f) = False"

definition collectMetrics :: "World \<Rightarrow> (nat \<times> int) list \<Rightarrow> Registry \<Rightarrow> outcome" where
  "collectMetrics w sched reg =
     (case getAllServices w of
        Inl f \<Rightarrow> Aborted f
      | Inr services \<Rightarrow>
          (case run w sched
                  \<lparr>pending = tasksOf services,
                   wg = int (length services * length metrics),
                   registry = reg,
                   finished = []\<rparr> of
             Inl f \<Rightarrow> Aborted f
           | Inr st \<Rightarrow> if wg st = 0 then Done st else Waiting st))"

subsection \<open>Scheduler: the loop of \<^verbatim>\<open>main\<close>\<close>

text \<open>
  \<^verbatim>\<open>time.Sleep\<close> returns at once for a duration that is zero or negative; \<open>Sleep\<close>
  is the time that passes in the call.
\<close>

definition Sleep :: "64 word \<Rightarrow> int" where
  "Sleep d = (if sint d \<le> 0 then 0 else sint d)"

text \<open>
  The loop never ends; \<open>mainLoop\<close> runs its first iterations. Each iteration is given
  the outside world of its cycle, the schedule of the cycle and the time the cycle takes.
  The result has the start time of every cycle begun, the final state of every cycle
  that returned, and the outcome that stopped the loop, if one did.
\<close>

fun mainLoop ::
  "(World \<times> (nat \<times> int) list \<times> int) list \<Rightarrow> int \<Rightarrow> Registry
     \<Rightarrow> int list \<times> CycleState list \<times> outcome option" where
  "mainLoop [] clock reg = ([], [], None)"
| "mainLoop ((w, sched, elapsed) # rest) clock reg =
     (let begin = clock
      in case collectMetrics w sched reg of
           Done st \<Rightarrow>
             (let timediff = Sub (begin + elapsed) begin;
                  wake = begin + elapsed + Sleep (Minute - timediff);
                  (begins, states, stop) = mainLoop rest wake (registry st)
              in (begin # begins, st # states, stop))
         | other \<Rightarrow> ([begin], [], Some other))"

definition finalRegistry :: "Registry \<Rightarrow> CycleState list \<Rightarrow> Registry" where
  "finalRegistry reg states = (if states = [] then reg else registry (last states))"


subsection \<open>Notions for stating the properties\<close>

text \<open>What the two loops of \<^verbatim>\<open>getAllServices\<close> read of a namespace and of a service.\<close>

definition namespaceName :: "NamespaceObject \<Rightarrow> string option" where
  "namespaceName n = (case NamespaceMetadata n of None \<Rightarrow> None | Some md \<Rightarrow> Name md)"

definition serviceType :: "Service \<Rightarrow> string option" where
  "serviceType s = (case Spec s of None \<Rightarrow> None | Some sp \<Rightarrow> Type sp)"

definition loadBalanced :: "Service \<Rightarrow> bool" where
  "loadBalanced s = (serviceType s = Some ''LoadBalancer'')"

text \<open>
  The services the orchestrator lists for a namespace, when the namespace has a name
  and the listing succeeds; a namespace is \<open>listable\<close> when, moreover, every service
  listed declares its type.
\<close>

definition listed :: "Client \<Rightarrow> NamespaceObject \<Rightarrow> Service list option" where
  "listed c n =
     (case namespaceName n of
        None \<Rightarrow> None
      | Some nm \<Rightarrow>
          (case ListServices c nm of
             (Some sl, None) \<Rightarrow> Some (ServiceItems sl)
           | _ \<Rightarrow> None))"

definition typed :: "Service list \<Rightarrow> bool" where
  "typed ss = list_all (\<lambda>s. serviceType s \<noteq> None) ss"

definition listable :: "Client \<Rightarrow> NamespaceObject \<Rightarrow> bool" where
  "listable c n = (case listed c n of None \<Rightarrow> False | Some ss \<Rightarrow> typed ss)"

text \<open>
  What a finished goroutine added to the series \<open>lvs\<close> of the vector
  \<^verbatim>\<open>surgeQueueLength\<close>: the number it fetched, when it ran the catalog entry
  \<^verbatim>\<open>SurgeQueueLength\<close> for a service with these label values.
\<close>

definition surgeAdded :: "World \<Rightarrow> string list \<Rightarrow> task \<times> int \<Rightarrow> real" where
  "surgeAdded w lvs e =
     (case e of ((m, s), now) \<Rightarrow>
        if MetricName m = ''SurgeQueueLength'' then
          (case getMetricArguments w now m s of
             Inr (elbName, Some sv, Some n, v) \<Rightarrow> if [elbName, sv, n] = lvs then v else 0
           | _ \<Rightarrow> 0)
        else 0)"

text \<open>
  The gauge a finished goroutine set, with the number it fetched: the entries
  \<^verbatim>\<open>HealthyHostCount\<close> and \<^verbatim>\<open>UnHealthyHostCount\<close> set one, the others none.
\<close>

definition gaugeWritten :: "World \<Rightarrow> task \<times> int \<Rightarrow> (series \<times> real) option" where
  "gaugeWritten w e =
     (case e of ((m, s), now) \<Rightarrow>
        (case getMetricArguments w now m s of
           Inr (elbName, Some sv, Some n, v) \<Rightarrow>
             if MetricName m = ''HealthyHostCount''
               then Some ((healthyHostCount, [elbName, sv, n]), v)
             else if MetricName m = ''UnHealthyHostCount''
               then Some ((unhealthyHostCount, [elbName, sv, n]), v)
             else None
         | _ \<Rightarrow> None))"

text \<open>The number of the latest write to a gauge in a history, if there is one.\<close>

fun lastWritten :: "World \<Rightarrow> series \<Rightarrow> (task \<times> int) list \<Rightarrow> real option" where
  "lastWritten w k [] = None"
| "lastWritten w k (e # es) =
     (case lastWritten w k es of
        Some v \<Rightarrow> Some v
      | None \<Rightarrow>
          (case gaugeWritten w e of
             Some (k', v) \<Rightarrow> if k' = k then Some v else None
           | None \<Rightarrow> None))"

text \<open>
  The catalog once more, as data: each entry with the operation its function performs.
  A counter entry adds to the series whose label values are a fixed prefix followed by
  the resolved name, the name of the service and its namespace; a gauge entry sets, and
  a histogram entry observes, the series of these three label values.
\<close>

datatype sinkShape =
    CounterSink family "string list"
  | GaugeSink family
  | HistogramSink family

fun sinkOf ::
  "sinkShape \<Rightarrow> string \<Rightarrow> string option \<Rightarrow> string option \<Rightarrow> real \<Rightarrow> Registry \<Rightarrow> fault + Registry" where
  "sinkOf (CounterSink fam pre) =
     (\<lambda>elbName svcName ns v reg.
        deref2 svcName ns (\<lambda>sv n. counterAdd fam (pre @ [elbName, sv, n]) v reg))"
| "sinkOf (GaugeSink fam) =
     (\<lambda>elbName svcName ns v reg.
        deref2 svcName ns (\<lambda>sv n. gaugeSet fam [elbName, sv, n] v reg))"
| "sinkOf (HistogramSink fam) =
     (\<lambda>elbName svcName ns v reg.
        deref2 svcName ns (\<lambda>sv n. histogramObserve fam [elbName, sv, n] v reg))"

definition catalogShape :: "(string \<times> string \<times> sinkShape) list" where
  "catalogShape =
    [(''HTTPCode_Backend_2XX'', ''Sum'', CounterSink httpRequestsTotal [''2XX'']),
     (''HTTPCode_Backend_3XX'', ''Sum'', CounterSink httpRequestsTotal [''3XX'']),
     (''HTTPCode_Backend_4XX'', ''Sum'', CounterSink httpRequestsTotal [''4XX'']),
     (''HTTPCode_Backend_5XX'', ''Sum'', CounterSink httpRequestsTotal [''5XX'']),
     (''HTTPCode_ELB_4XX'', ''Sum'', CounterSink httpRequestsTotal [''ELB_4XX'']),
     (''HTTPCode_ELB_5XX'', ''Sum'', CounterSink httpRequestsTotal [''ELB_5XX'']),
     (''BackendConnectionErrors'', ''Sum'', CounterSink backendConnectionsErrors []),
     (''HealthyHostCount'', ''Average'', GaugeSink healthyHostCount),
     (''Latency'', ''Average'', HistogramSink elbLatency),
     (''RequestCount'', ''Sum'', CounterSink requestCount []),
     (''SpilloverCount'', ''Sum'', CounterSink spilloverCount []),
     (''SurgeQueueLength'', ''Maximum'', CounterSink surgeQueueLength []),
     (''UnHealthyHostCount'', ''Average'', GaugeSink unhealthyHostCount)]"

definition entryOf :: "string \<times> string \<times> sinkShape \<Rightarrow> elbMetric" where
  "entryOf x =
     (case x of (mn, st, sh) \<Rightarrow> \<lparr>MetricName = mn, Statistic = st, Prometheus = sinkOf sh\<rparr>)"

text \<open>A counter series that exists keeps existing, with a value that is no smaller.\<close>

definition countersLe :: "Registry \<Rightarrow> Registry \<Rightarrow> bool" where
  "countersLe reg reg' =
     (\<forall>k c. counters reg k = Some c \<longrightarrow> (\<exists>c'. counters reg' k = Some c' \<and> c \<le> c'))"

text \<open>
  What the finished goroutines of a sequence of cycles added to a series of
  \<^verbatim>\<open>surgeQueueLength\<close>, cycle by cycle.
\<close>

fun surgeTotal ::
  "string list \<Rightarrow> (World \<times> (nat \<times> int) list \<times> int) list \<Rightarrow> CycleState list \<Rightarrow> real" where
  "surgeTotal lvs ((w, sched, elapsed) # its) (st # states) =
     sum_list (map (surgeAdded w lvs) (finished st)) + surgeTotal lvs its states"
| "surgeTotal lvs its states = 0"

subsection \<open>Sample worlds\<close>

text \<open>
  A cluster with the namespaces \<^verbatim>\<open>default\<close>, which holds the given services, and
  \<^verbatim>\<open>kube-system\<close>, which holds none; a backend that reports one data point with the
  given number for every statistic, and one that reports no data point.
\<close>

definition sampleService :: "string \<Rightarrow> string \<Rightarrow> LoadBalancerIngress list \<Rightarrow> Service" where
  "sampleService nm ty ing =
     \<lparr>Metadata = Some \<lparr>Name = Some nm, Namespace = Some ''default''\<rparr>,
      Spec = Some \<lparr>Type = Some ty\<rparr>,
      Status = Some \<lparr>LoadBalancer = Some \<lparr>Ingress = ing\<rparr>\<rparr>\<rparr>"

definition sampleClient :: "Service list \<Rightarrow> Client" where
  "sampleClient ss =
     \<lparr>ListNamespaces =
        (Some \<lparr>NamespaceItems =
           [\<lparr>NamespaceMetadata = Some \<lparr>Name = Some ''default'', Namespace = None\<rparr>\<rparr>,
            \<lparr>NamespaceMetadata = Some \<lparr>Name = Some ''kube-system'', Namespace = None\<rparr>\<rparr>]\<rparr>,
         None),
      ListServices = (\<lambda>nm. (Some \<lparr>ServiceItems = (if nm = ''default'' then ss else [])\<rparr>, None))\<rparr>"

definition sampleWorld ::
  "Client option \<times> string option
     \<Rightarrow> (GetMetricStatisticsInput \<Rightarrow> GetMetricStatisticsOutput option \<times> string option) \<Rightarrow> World" where
  "sampleWorld client backend =
     \<lparr>Getenv = (\<lambda>_. []),
      ReadFile = (\<lambda>_. (''apiVersion: v1'', None)),
      Unmarshal = (\<lambda>_. (Config ''apiVersion: v1'', None)),
      NewClient = (\<lambda>_. client),
      GetMetricStatistics = backend\<rparr>"

definition steadyBackend ::
  "real \<Rightarrow> GetMetricStatisticsInput \<Rightarrow> GetMetricStatisticsOutput option \<times> string option" where
  "steadyBackend v req =
     (Some \<lparr>Datapoints = [\<lparr>Sum = Some v, Average = Some v, Maximum = Some v, Minimum = Some v\<rparr>]\<rparr>,
      None)"

definition silentBackend ::
  "GetMetricStatisticsInput \<Rightarrow> GetMetricStatisticsOutput option \<times> string option" where
  "silentBackend req = (Some \<lparr>Datapoints = []\<rparr>, None)"

definition web :: Service where
  "web = sampleService ''web'' ''LoadBalancer''
     [\<lparr>Hostname = Some ''internal-a8280213c611d114o7340onc0d34252-152337689.us-east-1.elb.amazonaws.com''\<rparr>]"

text \<open>A cluster without services: every cycle over it returns at once.\<close>

definition idleWorld :: World where
  "idleWorld = sampleWorld (Some (sampleClient []), None) silentBackend"

text \<open>
  A cluster whose one load-balanced service is \<open>web\<close>, with a backend that reports
  the given number; the label values of the series of \<open>web\<close>; and a cluster that
  also holds a service whose hostname has no numeric group.
\<close>

definition webWorld :: "real \<Rightarrow> World" where
  "webWorld v = sampleWorld (Some (sampleClient [web]), None) (steadyBackend v)"

definition webLabels :: "string list" where
  "webLabels = [''a8280213c611d114o7340onc0d34252'', ''web'', ''default'']"

definition strayWorld :: World where
  "strayWorld =
     sampleWorld
       (Some (sampleClient
          [web, sampleService ''legacy'' ''LoadBalancer'' [\<lparr>Hostname = Some ''localhost''\<rparr>]]), None)
       (steadyBackend 3)"

text \<open>The registry after one cycle over \<open>web\<close> in which the backend reports 3.\<close>

definition firstCycle :: Registry where
  "firstCycle =
     finalRegistry emptyRegistry
       (fst (snd (mainLoop [(webWorld 3, replicate 13 (0, 1000), 2000000000)] 0 emptyRegistry)))"

section \<open>Name Resolver\<close>

lemma dash_not_digit: "\<not> isDigit (CHR ''-'')"
  by (simp add: isDigit_def)

lemma numericGroup_Cons:
  "numericGroup (c # cs) = (c = CHR ''-'' \<and> 6 \<le> length cs \<and> list_all isDigit (take 6 cs))"
  by (simp add: numericGroup_def)

lemma noGroup_matchHere: "\<not> containsGroup s \<Longrightarrow> matchHere s = None"
  by (induction s) auto

lemma matchHere_append:
  "lineFeed \<notin> set a \<Longrightarrow> matchHere s = Some g \<Longrightarrow> matchHere (a @ s) = Some (a @ g)"
  by (induction a) auto

lemma digits_noGroup:
  "list_all isDigit ds \<Longrightarrow> \<not> containsGroup b \<Longrightarrow> \<not> containsGroup (ds @ b)"
  by (induction ds) (auto simp: numericGroup_Cons dash_not_digit)

lemma matchHere_group:
  assumes "length ds = 6" and "list_all isDigit ds" and "\<not> containsGroup b"
  shows "matchHere (CHR ''-'' # ds @ b) = Some []"
proof -
  have "matchHere (ds @ b) = None"
    using assms by (simp add: noGroup_matchHere digits_noGroup)
  moreover have "numericGroup (CHR ''-'' # ds @ b)"
    using assms by (simp add: numericGroup_Cons)
  ultimately show ?thesis by (simp add: lineFeed_def)
qed

lemma FindStringSubmatch_of_match:
  "matchHere s = Some g \<Longrightarrow> FindStringSubmatch s = [g @ take 7 (drop (length g) s), g]"
  by (cases s) auto

lemma numericGroup_extend:
  assumes "\<not> numericGroup (c # cs)"
  shows "\<not> numericGroup (c # cs @ CHR ''-'' # r)"
proof (cases "6 \<le> length cs")
  case True
  then show ?thesis using assms by (simp add: numericGroup_Cons)
next
  case False
  then have "take 6 (cs @ CHR ''-'' # r) = cs @ CHR ''-'' # take (5 - length cs) r"
    by (simp add: take_Cons')
  then show ?thesis by (simp add: numericGroup_Cons dash_not_digit)
qed

lemma upToFirstGroup_prefix:
  "\<not> containsGroup a \<Longrightarrow> numericGroup (CHR ''-'' # r) \<Longrightarrow> upToFirstGroup (a @ CHR ''-'' # r) = a"
  by (induction a) (simp_all add: numericGroup_extend)

text \<open>
  Claim C3, as the program has it. Let a hostname be a text \<open>a\<close> without line feed,
  then a dash and six digits, then a rest in which no dash is followed by six digits.
  The resolved name is \<open>a\<close> with one leading \<^verbatim>\<open>internal-\<close> taken off: the greedy star
  reaches the last dash that six digits follow. When \<open>a\<close> holds no such group either,
  that group is also the first one, and the resolved name is the segment before it. The
  hostname of the comment resolves to the name of the comment.
\<close>

theorem elbNameFromElbDNS_last_group:
  assumes "length ds = 6" and "list_all isDigit ds"
    and "lineFeed \<notin> set a" and "\<not> containsGroup b"
  shows "elbNameFromElbDNS (a @ CHR ''-'' # ds @ b) = Inr (TrimPrefix a ''internal-'')
    \<and> (\<not> containsGroup a \<longrightarrow>
          elbNameFromElbDNS (a @ CHR ''-'' # ds @ b) = Inr (specResolvedName (a @ CHR ''-'' # ds @ b)))
    \<and> elbNameFromElbDNS
          ''internal-a8280213c611d114o7340onc0d34252-152337689.us-east-1.elb.amazonaws.com''
        = Inr ''a8280213c611d114o7340onc0d34252''"
proof -
  have "matchHere (a @ CHR ''-'' # ds @ b) = Some (a @ [])"
    using assms by (intro matchHere_append matchHere_group)
  then have m: "FindStringSubmatch (a @ CHR ''-'' # ds @ b)
      = [a @ take 7 (drop (length a) (a @ CHR ''-'' # ds @ b)), a]"
    using FindStringSubmatch_of_match [of "a @ CHR ''-'' # ds @ b" a] by simp
  have r: "elbNameFromElbDNS (a @ CHR ''-'' # ds @ b) = Inr (TrimPrefix a ''internal-'')"
    unfolding elbNameFromElbDNS_def m by simp
  have g: "numericGroup (CHR ''-'' # ds @ b)"
    using assms by (simp add: numericGroup_Cons)
  have s: "\<not> containsGroup a \<Longrightarrow>
      specResolvedName (a @ CHR ''-'' # ds @ b) = TrimPrefix a ''internal-''"
    using g by (simp add: specResolvedName_def upToFirstGroup_prefix)
  have e: "elbNameFromElbDNS
          ''internal-a8280213c611d114o7340onc0d34252-152337689.us-east-1.elb.amazonaws.com''
        = Inr ''a8280213c611d114o7340onc0d34252''"
    by code_simp
  show ?thesis using r s e by simp
qed

theorem elbNameFromElbDNS_last_group_witness:
  "length ''152337'' = 6 \<and> list_all isDigit ''152337''
   \<and> lineFeed \<notin> set ''internal-a8280213c611d114o7340onc0-123456''
   \<and> \<not> containsGroup ''689.us-east-1.elb.amazonaws.com''
   \<and> elbNameFromElbDNS
        (''internal-a8280213c611d114o7340onc0-123456'' @ CHR ''-'' # ''152337''
           @ ''689.us-east-1.elb.amazonaws.com'')
      = Inr ''a8280213c611d114o7340onc0-123456''"
proof -
  have h: "length ''152337'' = 6" "list_all isDigit ''152337''"
    "lineFeed \<notin> set ''internal-a8280213c611d114o7340onc0-123456''"
    "\<not> containsGroup ''689.us-east-1.elb.amazonaws.com''"
    by code_simp+
  have t: "TrimPrefix ''internal-a8280213c611d114o7340onc0-123456'' ''internal-''
      = ''a8280213c611d114o7340onc0-123456''"
    by code_simp
  show ?thesis
    using h elbNameFromElbDNS_last_group [OF h] unfolding t by blast
qed

text \<open>
  Claim C3 as it is worded fails where the name itself holds a dash and six digits:
  the program returns the whole name, the segment before the first group is shorter.
\<close>

theorem elbNameFromElbDNS_first_group_counterexample:
  "elbNameFromElbDNS
     ''internal-a8280213c611d114o7340onc0-123456-152337689.us-east-1.elb.amazonaws.com''
     = Inr ''a8280213c611d114o7340onc0-123456''
   \<and> specResolvedName
     ''internal-a8280213c611d114o7340onc0-123456-152337689.us-east-1.elb.amazonaws.com''
     = ''a8280213c611d114o7340onc0''"
  by code_simp

section \<open>Service Discovery\<close>

lemma serviceLoop_typed:
  "typed ss \<Longrightarrow> serviceLoop ss acc = Inr (acc @ filter loadBalanced ss)"
  by (induction ss arbitrary: acc)
     (auto simp: typed_def serviceType_def loadBalanced_def split: option.splits)

lemma namespaceLoop_listable:
  "list_all (listable c) ns \<Longrightarrow>
   namespaceLoop c ns acc
     = Inr (acc @ filter loadBalanced (concat (map (\<lambda>n. the (listed c n)) ns)))"
proof (induction ns arbitrary: acc)
  case Nil
  then show ?case by simp
next
  case (Cons n ns)
  from Cons.prems obtain ss where l: "listed c n = Some ss" and t: "typed ss"
    by (auto simp: listable_def split: option.splits)
  from l obtain md nm sl where n: "NamespaceMetadata n = Some md" "Name md = Some nm"
    "ListServices c nm = (Some sl, None)" "ServiceItems sl = ss"
    by (auto simp: listed_def namespaceName_def split: option.splits prod.splits)
  have "namespaceLoop c (n # ns) acc = namespaceLoop c ns (acc @ filter loadBalanced ss)"
    using n t by (simp add: serviceLoop_typed)
  also have "\<dots> = Inr ((acc @ filter loadBalanced ss)
      @ filter loadBalanced (concat (map (\<lambda>n. the (listed c n)) ns)))"
    using Cons.prems by (intro Cons.IH) simp
  finally show ?case using l by simp
qed

text \<open>
  Claim C8. When the client is built, the namespaces are listed, every namespace has a
  name and its services are listed, and every service listed declares its type, the
  function returns the listed services of type \<^verbatim>\<open>LoadBalancer\<close>, in the order of
  the listings: a service is returned exactly when some namespace lists it and its
  type is \<^verbatim>\<open>LoadBalancer\<close>.
\<close>

theorem getAllServices_load_balanced:
  assumes "loadClient w = (Some c, None)"
    and "ListNamespaces c = (Some nl, None)"
    and "list_all (listable c) (NamespaceItems nl)"
  shows "getAllServices w
           = Inr (filter loadBalanced (concat (map (\<lambda>n. the (listed c n)) (NamespaceItems nl))))
     \<and> (\<forall>s. (\<exists>services. getAllServices w = Inr services \<and> s \<in> set services)
            = (\<exists>n ss. n \<in> set (NamespaceItems nl) \<and> listed c n = Some ss \<and> s \<in> set ss
                  \<and> serviceType s = Some ''LoadBalancer''))"
proof -
  have r: "getAllServices w
      = Inr (filter loadBalanced (concat (map (\<lambda>n. the (listed c n)) (NamespaceItems nl))))"
    using assms by (simp add: getAllServices_def namespaceLoop_listable)
  have ex: "\<exists>ss. listed c n = Some ss" if "n \<in> set (NamespaceItems nl)" for n
    using assms(3) that by (auto simp: list_all_iff listable_def split: option.splits)
  have "(s \<in> set (filter loadBalanced (concat (map (\<lambda>n. the (listed c n)) (NamespaceItems nl)))))
     = (\<exists>n ss. n \<in> set (NamespaceItems nl) \<and> listed c n = Some ss \<and> s \<in> set ss
                  \<and> serviceType s = Some ''LoadBalancer'')" (is "?L = ?R") for s
  proof
    assume ?L
    then obtain n where n: "n \<in> set (NamespaceItems nl)" "s \<in> set (the (listed c n))"
      and lb: "loadBalanced s" by auto
    from ex [OF n(1)] obtain ss where "listed c n = Some ss" ..
    with n lb show ?R by (auto simp: loadBalanced_def)
  next
    assume ?R
    then obtain n ss where "n \<in> set (NamespaceItems nl)" "listed c n = Some ss" "s \<in> set ss"
      "serviceType s = Some ''LoadBalancer''" by blast
    then show ?L by (force simp: loadBalanced_def)
  qed
  with r show ?thesis by simp
qed

theorem getAllServices_load_balanced_witness:
  "getAllServices
     (sampleWorld
        (Some (sampleClient
           [sampleService ''db'' ''ClusterIP'' [], web, sampleService ''cache'' ''NodePort'' []]),
         None)
        silentBackend)
   = Inr [web]"
proof -
  let ?c = "sampleClient
    [sampleService ''db'' ''ClusterIP'' [], web, sampleService ''cache'' ''NodePort'' []]"
  let ?w = "sampleWorld (Some ?c, None) silentBackend"
  let ?nl = "\<lparr>NamespaceItems =
           [\<lparr>NamespaceMetadata = Some \<lparr>Name = Some ''default'', Namespace = None\<rparr>\<rparr>,
            \<lparr>NamespaceMetadata = Some \<lparr>Name = Some ''kube-system'', Namespace = None\<rparr>\<rparr>]\<rparr>"
  have a: "loadClient ?w = (Some ?c, None)"
    by (simp add: loadClient_def sampleWorld_def)
  have b: "ListNamespaces ?c = (Some ?nl, None)"
    by (simp add: sampleClient_def)
  have c: "list_all (listable ?c) (NamespaceItems ?nl)"
    by (simp add: listable_def listed_def namespaceName_def typed_def serviceType_def
        sampleClient_def sampleService_def web_def)
  show ?thesis
    using getAllServices_load_balanced [OF a b c]
    by (simp add: listed_def namespaceName_def loadBalanced_def serviceType_def
        sampleClient_def sampleService_def web_def)
qed


lemma namespaceLoop_error:
  assumes "n \<in> set ns" and "NamespaceMetadata n = Some md" and "Name md = Some nm"
    and "ListServices c nm = (sl, Some e)"
  shows "\<exists>f. namespaceLoop c ns acc = Inl f"
  using assms(1)
proof (induction ns arbitrary: acc)
  case Nil
  then show ?case by simp
next
  case (Cons x xs)
  show ?case
  proof (cases "x = n")
    case True
    then show ?thesis using assms(2-4) by (simp split: option.splits)
  next
    case False
    with Cons.prems have "n \<in> set xs" by simp
    then have "\<And>acc'. \<exists>f. namespaceLoop c xs acc' = Inl f" by (rule Cons.IH)
    then show ?thesis
      by (auto split: option.splits prod.splits sum.splits)
  qed
qed

text \<open>
  Claim C7, read on the program. An error of \<^verbatim>\<open>loadClient\<close> goes to \<^verbatim>\<open>log.Fatal\<close>,
  and so does an error of the listing of the services of a namespace, unless an earlier
  namespace already ended the process. The error of the listing of namespaces is never
  read: when it comes with a nil list the process ends in a nil dereference, and when it
  comes with a list the loop runs over that list as if there were no error.
\<close>

theorem getAllServices_fatal:
  "(loadClient w = (c0, Some e) \<longrightarrow> getAllServices w = Inl (Fatal e))
   \<and> (loadClient w = (Some c, None) \<and> ListNamespaces c = (None, Some e)
        \<longrightarrow> getAllServices w = Inl NilDereference)
   \<and> (loadClient w = (Some c, None) \<and> ListNamespaces c = (Some nl, Some e)
        \<longrightarrow> getAllServices w = namespaceLoop c (NamespaceItems nl) [])
   \<and> (loadClient w = (Some c, None) \<and> ListNamespaces c = (Some nl, en)
        \<and> n \<in> set (NamespaceItems nl) \<and> NamespaceMetadata n = Some md \<and> Name md = Some nm
        \<and> ListServices c nm = (sl, Some e)
        \<longrightarrow> (\<exists>f. getAllServices w = Inl f))"
proof (intro conjI impI)
  assume "loadClient w = (c0, Some e)"
  then show "getAllServices w = Inl (Fatal e)"
    by (simp add: getAllServices_def split: option.splits)
next
  assume "loadClient w = (Some c, None) \<and> ListNamespaces c = (None, Some e)"
  then show "getAllServices w = Inl NilDereference" by (simp add: getAllServices_def)
next
  assume "loadClient w = (Some c, None) \<and> ListNamespaces c = (Some nl, Some e)"
  then show "getAllServices w = namespaceLoop c (NamespaceItems nl) []"
    by (simp add: getAllServices_def)
next
  assume a: "loadClient w = (Some c, None) \<and> ListNamespaces c = (Some nl, en)
        \<and> n \<in> set (NamespaceItems nl) \<and> NamespaceMetadata n = Some md \<and> Name md = Some nm
        \<and> ListServices c nm = (sl, Some e)"
  then have "\<exists>f. namespaceLoop c (NamespaceItems nl) [] = Inl f"
    by (intro namespaceLoop_error [of n _ md nm c sl e]) simp_all
  with a show "\<exists>f. getAllServices w = Inl f" by (simp add: getAllServices_def)
qed

theorem getAllServices_fatal_witness:
  "getAllServices (sampleWorld (None, Some ''no current context'') silentBackend)
     = Inl (Fatal ''no current context'')
   \<and> getAllServices
        (sampleWorld
           (Some \<lparr>ListNamespaces = (None, Some ''connection refused''),
                  ListServices = (\<lambda>nm. (None, Some ''connection refused''))\<rparr>, None)
           silentBackend)
     = Inl NilDereference
   \<and> getAllServices
        (sampleWorld
           (Some \<lparr>ListNamespaces = (Some \<lparr>NamespaceItems = []\<rparr>, Some ''unexpected EOF''),
                  ListServices = (\<lambda>nm. (None, Some ''unexpected EOF''))\<rparr>, None)
           silentBackend)
     = Inr []
   \<and> (\<exists>f. getAllServices
        (sampleWorld
           (Some \<lparr>ListNamespaces = ListNamespaces (sampleClient []),
                  ListServices = (\<lambda>nm. (None, Some ''forbidden''))\<rparr>, None)
           silentBackend)
     = Inl f)"
proof -
  let ?w1 = "sampleWorld (None, Some ''no current context'') silentBackend"
  let ?c2 = "\<lparr>ListNamespaces = (None, Some ''connection refused''),
             ListServices = (\<lambda>nm. (None :: ServiceList option, Some ''connection refused''))\<rparr>"
  let ?c3 = "\<lparr>ListNamespaces = ListNamespaces (sampleClient []),
             ListServices = (\<lambda>nm. (None :: ServiceList option, Some ''forbidden''))\<rparr>"
  let ?c4 = "\<lparr>ListNamespaces = (Some \<lparr>NamespaceItems = []\<rparr>, Some ''unexpected EOF''),
             ListServices = (\<lambda>nm. (None :: ServiceList option, Some ''unexpected EOF''))\<rparr>"
  let ?md = "\<lparr>Name = Some ''default'', Namespace = None\<rparr>"
  let ?n = "\<lparr>NamespaceMetadata = Some ?md\<rparr>"
  let ?nl = "\<lparr>NamespaceItems =
           [?n, \<lparr>NamespaceMetadata = Some \<lparr>Name = Some ''kube-system'', Namespace = None\<rparr>\<rparr>]\<rparr>"
  have a: "loadClient ?w1 = (None, Some ''no current context'')"
    by (simp add: loadClient_def sampleWorld_def)
  have b: "loadClient (sampleWorld (Some ?c2, None) silentBackend) = (Some ?c2, None)
      \<and> ListNamespaces ?c2 = (None, Some ''connection refused'')"
    by (simp add: loadClient_def sampleWorld_def)
  have c: "loadClient (sampleWorld (Some ?c3, None) silentBackend) = (Some ?c3, None)
      \<and> ListNamespaces ?c3 = (Some ?nl, None)
      \<and> ?n \<in> set (NamespaceItems ?nl) \<and> NamespaceMetadata ?n = Some ?md
      \<and> Name ?md = Some ''default''
      \<and> ListServices ?c3 ''default'' = (None, Some ''forbidden'')"
    by (simp add: loadClient_def sampleWorld_def sampleClient_def)
  have d: "loadClient (sampleWorld (Some ?c4, None) silentBackend) = (Some ?c4, None)
      \<and> ListNamespaces ?c4 = (Some \<lparr>NamespaceItems = []\<rparr>, Some ''unexpected EOF'')"
    by (simp add: loadClient_def sampleWorld_def)
  from a getAllServices_fatal [where w = ?w1 and ?c0.0 = None and e = "''no current context''"]
  have 1: "getAllServices ?w1 = Inl (Fatal ''no current context'')" by blast
  from b getAllServices_fatal [where w = "sampleWorld (Some ?c2, None) silentBackend"
      and c = ?c2 and e = "''connection refused''"]
  have 2: "getAllServices (sampleWorld (Some ?c2, None) silentBackend) = Inl NilDereference"
    by blast
  from c getAllServices_fatal [where w = "sampleWorld (Some ?c3, None) silentBackend"
      and c = ?c3 and nl = ?nl and en = None and n = ?n and md = ?md and nm = "''default''"
      and sl = None and e = "''forbidden''"]
  have 3: "\<exists>f. getAllServices (sampleWorld (Some ?c3, None) silentBackend) = Inl f"
    by blast
  from d getAllServices_fatal [where w = "sampleWorld (Some ?c4, None) silentBackend"
      and c = ?c4 and nl = "\<lparr>NamespaceItems = []\<rparr>" and e = "''unexpected EOF''"]
  have "getAllServices (sampleWorld (Some ?c4, None) silentBackend)
      = namespaceLoop ?c4 (NamespaceItems \<lparr>NamespaceItems = []\<rparr>) []"
    by blast
  then have 4: "getAllServices (sampleWorld (Some ?c4, None) silentBackend) = Inr []"
    by simp
  from 1 2 3 4 show ?thesis by blast
qed

section \<open>Metric Fetcher\<close>

lemma lastMinute_eq: "Add currentTime (- Minute) = currentTime - 60000000000"
  by (simp add: Add_def Minute_def)

text \<open>
  Claim C6. When the backend answers the query for the 60 seconds before the call
  without an error and with no data point, the fetch yields a pointer to the number 0:
  no fault and no nil pointer.
\<close>

theorem getElbMetric_no_datapoints:
  assumes "GetMetricStatistics w
      \<lparr>Dimensions = [(''LoadBalancerName'', elbName)],
       StartTime = currentTime - 60000000000,
       EndTime = currentTime,
       InputMetricName = metricName,
       InputNamespace = ''AWS/ELB'',
       Period = 60,
       Statistics = [statisticType]\<rparr> = (Some data, None)"
    and "Datapoints data = []"
  shows "getElbMetric w currentTime elbName metricName statisticType = Inr (Some 0)"
  using assms by (simp add: getElbMetric_def lastMinute_eq)

theorem getElbMetric_no_datapoints_witness:
  "getElbMetric (sampleWorld (Some (sampleClient [web]), None) silentBackend) 1000000000000
     ''a8280213c611d114o7340onc0d34252'' ''HTTPCode_Backend_5XX'' ''Sum'' = Inr (Some 0)"
  by (rule getElbMetric_no_datapoints [where data = "\<lparr>Datapoints = []\<rparr>"])
     (simp_all add: sampleWorld_def silentBackend_def)

section \<open>Scheduler\<close>

lemma sint_word_of_int_64:
  "- (2 ^ 63) \<le> x \<Longrightarrow> x < 2 ^ 63 \<Longrightarrow> sint (word_of_int x :: 64 word) = x"
  by (simp add: sint_sbintrunc' signed_take_bit_int_eq_self)

lemma Minute_word: "Minute = word_of_int 60000000000"
  by (simp add: Minute_def)

lemma Sleep_after_cycle:
  assumes "0 \<le> D"
  shows "Sleep (Minute - Sub (start + D) start) = max 0 (60000000000 - D)"
proof (cases "D \<le> 2 ^ 63 - 1")
  case True
  then have "Minute - Sub (start + D) start = word_of_int (60000000000 - D)"
    using assms by (simp add: Sub_def Minute_word)
  moreover have "sint (word_of_int (60000000000 - D) :: 64 word) = 60000000000 - D"
    using True assms by (intro sint_word_of_int_64) simp_all
  ultimately show ?thesis by (simp add: Sleep_def max_def)
next
  case False
  then have "Minute - Sub (start + D) start = word_of_int (60000000000 - (2 ^ 63 - 1))"
    by (simp add: Sub_def Minute_word)
  moreover have "sint (word_of_int (60000000000 - (2 ^ 63 - 1)) :: 64 word)
      = 60000000000 - (2 ^ 63 - 1)"
    by (intro sint_word_of_int_64) simp_all
  ultimately show ?thesis using False by (simp add: Sleep_def max_def)
qed

lemma mainLoop_Done_parts:
  assumes "collectMetrics w sched reg = Done st"
  shows "fst (mainLoop ((w, sched, D) # rest) clock reg)
      = clock # fst (mainLoop rest (clock + D + Sleep (Minute - Sub (clock + D) clock)) (registry st))"
    and "fst (snd (mainLoop ((w, sched, D) # rest) clock reg))
      = st # fst (snd (mainLoop rest (clock + D + Sleep (Minute - Sub (clock + D) clock)) (registry st)))"
    and "snd (snd (mainLoop ((w, sched, D) # rest) clock reg))
      = snd (snd (mainLoop rest (clock + D + Sleep (Minute - Sub (clock + D) clock)) (registry st)))"
  using assms by (simp_all add: Let_def split: prod.splits)

lemma mainLoop_stopped:
  "\<not> isDone (collectMetrics w sched reg) \<Longrightarrow>
   mainLoop ((w, sched, D) # rest) clock reg = ([clock], [], Some (collectMetrics w sched reg))"
  by (cases "collectMetrics w sched reg") (simp_all add: Let_def)

lemma mainLoop_begins_hd:
  "its \<noteq> [] \<Longrightarrow> \<exists>bs. fst (mainLoop its clock reg) = clock # bs"
proof (cases its)
  case Nil
  then show "its \<noteq> [] \<Longrightarrow> ?thesis" by simp
next
  case (Cons x rest)
  obtain w sched D where x: "x = (w, sched, D)" by (cases x)
  show ?thesis
  proof (cases "collectMetrics w sched reg")
    case (Done st)
    then show ?thesis unfolding Cons x
      using mainLoop_Done_parts(1) [OF Done] by simp
  qed (simp_all add: Cons x mainLoop_stopped)
qed

lemma mainLoop_gap:
  "Suc i < length (fst (mainLoop its clock reg)) \<Longrightarrow> 0 \<le> snd (snd (its ! i)) \<Longrightarrow>
   fst (mainLoop its clock reg) ! Suc i - fst (mainLoop its clock reg) ! i
     = max 60000000000 (snd (snd (its ! i)))"
proof (induction its arbitrary: i clock reg)
  case Nil
  then show ?case by simp
next
  case (Cons x rest)
  obtain w sched D where x: "x = (w, sched, D)" by (cases x)
  show ?case
  proof (cases "collectMetrics w sched reg")
    case (Done st)
    let ?wake = "clock + D + Sleep (Minute - Sub (clock + D) clock)"
    have m: "fst (mainLoop (x # rest) clock reg) = clock # fst (mainLoop rest ?wake (registry st))"
      unfolding x by (rule mainLoop_Done_parts(1) [OF Done])
    show ?thesis
    proof (cases i)
      case 0
      with Cons.prems m have "fst (mainLoop rest ?wake (registry st)) \<noteq> []" by auto
      then have "rest \<noteq> []" by auto
      then obtain bs where "fst (mainLoop rest ?wake (registry st)) = ?wake # bs"
        using mainLoop_begins_hd by blast
      moreover have "0 \<le> D" using Cons.prems 0 x by simp
      ultimately show ?thesis
        using m 0 x by (simp add: Sleep_after_cycle max_def)
    next
      case (Suc j)
      with Cons.prems m show ?thesis
        using Cons.IH [of j ?wake "registry st"] by simp
    qed
  next
    case (Waiting st)
    then show ?thesis using Cons.prems unfolding x by (simp add: mainLoop_stopped)
  next
    case (Aborted f)
    then show ?thesis using Cons.prems unfolding x by (simp add: mainLoop_stopped)
  qed
qed

lemma mainLoop_lengths:
  "length (fst (mainLoop its clock reg))
     = min (length its) (Suc (length (fst (snd (mainLoop its clock reg)))))"
proof (induction its arbitrary: clock reg)
  case Nil
  then show ?case by simp
next
  case (Cons x rest)
  obtain w sched D where x: "x = (w, sched, D)" by (cases x)
  show ?case
  proof (cases "collectMetrics w sched reg")
    case (Done st)
    show ?thesis unfolding x
      using Cons.IH [of "clock + D + Sleep (Minute - Sub (clock + D) clock)" "registry st"]
      by (simp only: mainLoop_Done_parts [OF Done]) simp
  qed (simp_all add: x mainLoop_stopped)
qed

text \<open>
  Claim C2. Let iteration \<open>i\<close> of the loop run a cycle that takes \<open>D \<ge> 0\<close>
  nanoseconds, and let the next cycle begin. The time that passes in \<^verbatim>\<open>time.Sleep\<close>
  is \<open>max 0 (P - D)\<close> for the period \<open>P\<close> of 60 seconds. When \<open>D < P\<close> the two
  cycles begin \<open>P\<close> apart; when \<open>D \<ge> P\<close> the next cycle begins at the moment the
  cycle ends. Every cycle that returns is followed by the next one: the cycles begun are
  one more than the cycles that returned, as long as iterations remain.
\<close>

theorem scheduler_cadence:
  assumes "its ! i = (w, sched, D)" and "0 \<le> D"
    and "Suc i < length (fst (mainLoop its clock reg))"
  shows "Sleep (Minute - Sub (fst (mainLoop its clock reg) ! i + D) (fst (mainLoop its clock reg) ! i))
        = max 0 (60000000000 - D)
    \<and> (D < 60000000000 \<longrightarrow>
          fst (mainLoop its clock reg) ! Suc i - fst (mainLoop its clock reg) ! i = 60000000000)
    \<and> (60000000000 \<le> D \<longrightarrow>
          fst (mainLoop its clock reg) ! Suc i = fst (mainLoop its clock reg) ! i + D)
    \<and> length (fst (mainLoop its clock reg))
        = min (length its) (Suc (length (fst (snd (mainLoop its clock reg)))))"
proof -
  have "fst (mainLoop its clock reg) ! Suc i - fst (mainLoop its clock reg) ! i
      = max 60000000000 D"
    using mainLoop_gap [OF assms(3)] assms(1,2) by simp
  then show ?thesis
    using Sleep_after_cycle [OF assms(2)] mainLoop_lengths [of its clock reg]
    by (auto simp: max_def)
qed

theorem scheduler_cadence_witness:
  "Sleep (Minute - Sub (0 + 5000000000) 0) = 55000000000
   \<and> fst (mainLoop [(idleWorld, [], 5000000000), (idleWorld, [], 75000000000), (idleWorld, [], 0)]
            0 emptyRegistry) = [0, 60000000000, 135000000000]
   \<and> fst (mainLoop [(idleWorld, [], 5000000000), (idleWorld, [], 75000000000), (idleWorld, [], 0)]
            0 emptyRegistry) ! Suc 0
     - fst (mainLoop [(idleWorld, [], 5000000000), (idleWorld, [], 75000000000), (idleWorld, [], 0)]
            0 emptyRegistry) ! 0 = 60000000000
   \<and> fst (mainLoop [(idleWorld, [], 5000000000), (idleWorld, [], 75000000000), (idleWorld, [], 0)]
            0 emptyRegistry) ! Suc 1
     = fst (mainLoop [(idleWorld, [], 5000000000), (idleWorld, [], 75000000000), (idleWorld, [], 0)]
            0 emptyRegistry) ! 1 + 75000000000"
proof -
  let ?its = "[(idleWorld, [], 5000000000), (idleWorld, [], 75000000000), (idleWorld, [], 0)]
    :: (World \<times> (nat \<times> int) list \<times> int) list"
  have b: "fst (mainLoop ?its 0 emptyRegistry) = [0, 60000000000, 135000000000]"
    by code_simp
  have 0: "?its ! 0 = (idleWorld, [], 5000000000)" "(0::int) \<le> 5000000000"
    "Suc 0 < length (fst (mainLoop ?its 0 emptyRegistry))"
    unfolding b by simp_all
  have 1: "?its ! 1 = (idleWorld, [], 75000000000)" "(0::int) \<le> 75000000000"
    "Suc 1 < length (fst (mainLoop ?its 0 emptyRegistry))"
    unfolding b by simp_all
  have s: "Sleep (Minute - Sub (0 + 5000000000) 0) = 55000000000"
    using scheduler_cadence [OF 0] unfolding b by simp
  show ?thesis
    using s scheduler_cadence [OF 0] scheduler_cadence [OF 1] unfolding b by simp
qed

section \<open>Collection Cycle\<close>

lemma mset_without_nth:
  assumes "i < length xs"
  shows "mset (take i xs @ drop (Suc i) xs) + {#xs ! i#} = mset xs"
proof -
  have "mset xs = mset (take i xs @ xs ! i # drop (Suc i) xs)"
    using id_take_nth_drop [OF assms] by simp
  then show ?thesis by simp
qed

lemma set_without_nth_subset: "set (take i xs @ drop (Suc i) xs) \<subseteq> set xs"
  by (auto dest: in_set_takeD in_set_dropD)

lemma length_tasksOf: "length (tasksOf services) = length services * length metrics"
  by (induction services) (simp_all add: tasksOf_def)


lemma tasksOf_catalog: "t \<in> set (tasksOf services) \<Longrightarrow> fst t \<in> set metrics"
  by (auto simp: tasksOf_def)

lemma run_wg:
  "run w sched st = Inr st' \<Longrightarrow> wg st = int (length (pending st)) \<Longrightarrow>
   wg st' = int (length (pending st'))"
proof (induction w sched st rule: run.induct)
  case (1 w st)
  then show ?case by simp
next
  case (2 w i now sched st)
  show ?case
  proof (cases "i < length (pending st)")
    case True
    with "2.prems"(1) obtain reg' where
      g: "getMetric w now (fst (pending st ! i)) (snd (pending st ! i)) (registry st) = Inr reg'"
      by (auto split: sum.splits)
    let ?st = "\<lparr>pending = take i (pending st) @ drop (Suc i) (pending st), wg = wg st - 1,
                registry = reg', finished = finished st @ [(pending st ! i, now)]\<rparr>"
    have "run w sched ?st = Inr st'" using "2.prems"(1) True g by simp
    moreover have "wg ?st = int (length (pending ?st))" using "2.prems"(2) True by simp
    ultimately show ?thesis using "2.IH"(1) [OF True g] by blast
  next
    case False
    with 2 show ?thesis by simp
  qed
qed

lemma run_history:
  "run w sched st = Inr st' \<Longrightarrow>
   mset (map fst (finished st')) + mset (pending st')
     = mset (map fst (finished st)) + mset (pending st)"
proof (induction w sched st rule: run.induct)
  case (1 w st)
  then show ?case by simp
next
  case (2 w i now sched st)
  show ?case
  proof (cases "i < length (pending st)")
    case True
    with "2.prems"(1) obtain reg' where
      g: "getMetric w now (fst (pending st ! i)) (snd (pending st ! i)) (registry st) = Inr reg'"
      by (auto split: sum.splits)
    let ?st = "\<lparr>pending = take i (pending st) @ drop (Suc i) (pending st), wg = wg st - 1,
                registry = reg', finished = finished st @ [(pending st ! i, now)]\<rparr>"
    have "run w sched ?st = Inr st'" using "2.prems"(1) True g by simp
    then have "mset (map fst (finished st')) + mset (pending st')
        = mset (map fst (finished ?st)) + mset (pending ?st)"
      by (rule "2.IH"(1) [OF True g])
    also have "\<dots> = mset (map fst (finished st))
        + (mset (take i (pending st) @ drop (Suc i) (pending st)) + {#pending st ! i#})"
      by simp
    also have "\<dots> = mset (map fst (finished st)) + mset (pending st)"
      by (simp only: mset_without_nth [OF True])
    finally show ?thesis .
  next
    case False
    with 2 show ?thesis by simp
  qed
qed


lemma cycle_invariant:
  assumes "run w sched \<lparr>pending = tasksOf services, wg = int (length services * length metrics),
             registry = reg, finished = []\<rparr> = Inr st"
  shows "wg st = int (length (pending st))"
    and "mset (map fst (finished st)) + mset (pending st) = mset (tasksOf services)"
    and "length (finished st) + length (pending st) = length services * length metrics"
proof -
  show 1: "wg st = int (length (pending st))"
    using run_wg [OF assms] by (simp add: length_tasksOf)
  show 2: "mset (map fst (finished st)) + mset (pending st) = mset (tasksOf services)"
    using run_history [OF assms] by simp
  have "size (mset (map fst (finished st)) + mset (pending st)) = size (mset (tasksOf services))"
    using 2 by simp
  then show "length (finished st) + length (pending st) = length services * length metrics"
    by (simp add: length_tasksOf)
qed

lemma cycle_done_history:
  assumes "getAllServices w = Inr services" and "collectMetrics w sched reg = Done st"
  shows "pending st = []" and "mset (map fst (finished st)) = mset (tasksOf services)"
proof -
  from assms have r: "run w sched \<lparr>pending = tasksOf services,
      wg = int (length services * length metrics), registry = reg, finished = []\<rparr> = Inr st"
    and z: "wg st = 0"
    by (auto simp: collectMetrics_def split: sum.splits if_splits)
  show "pending st = []" using cycle_invariant(1) [OF r] z by simp
  then show "mset (map fst (finished st)) = mset (tasksOf services)"
    using cycle_invariant(2) [OF r] by simp
qed



text \<open>
  Claim C4 at the hostname \<^verbatim>\<open>localhost\<close>, in which no dash is followed by six digits:
  \<^verbatim>\<open>FindStringSubmatch\<close> returns the nil slice, the resolver reads its element 1 and
  panics, and a cycle over \<open>web\<close> and a service with that hostname, scheduled goroutine
  after goroutine, ends the process instead of skipping the service. A hostname that
  lacks the domain but holds such a group, \<^verbatim>\<open>x-123456\<close>, is resolved to \<^verbatim>\<open>x\<close> with
  no error at all.
\<close>

theorem unmatched_hostname_aborts:
  "FindStringSubmatch ''localhost'' = []
   \<and> elbNameFromElbDNS ''localhost'' = Inl IndexOutOfRange
   \<and> collectMetrics strayWorld (replicate 26 (0, 1000)) emptyRegistry = Aborted IndexOutOfRange
   \<and> elbNameFromElbDNS ''x-123456'' = Inr ''x''"
proof -
  have "case collectMetrics strayWorld (replicate 26 (0, 1000)) emptyRegistry of
          Aborted f \<Rightarrow> f = IndexOutOfRange
        | Waiting st \<Rightarrow> False
        | Done st \<Rightarrow> False"
    by code_simp
  then have "collectMetrics strayWorld (replicate 26 (0, 1000)) emptyRegistry
      = Aborted IndexOutOfRange"
    by (cases "collectMetrics strayWorld (replicate 26 (0, 1000)) emptyRegistry") simp_all
  moreover have "FindStringSubmatch ''localhost'' = []"
    by code_simp
  moreover have "elbNameFromElbDNS ''localhost'' = Inl IndexOutOfRange"
    by code_simp
  moreover have "elbNameFromElbDNS ''x-123456'' = Inr ''x''"
    by code_simp
  ultimately show ?thesis by simp
qed

text \<open>
  Claim C5 at a service of type \<^verbatim>\<open>LoadBalancer\<close> whose list of ingresses is still
  empty: the goroutine reads \<^verbatim>\<open>Ingress[0]\<close>, and a cycle over \<open>web\<close> and that service,
  scheduled goroutine after goroutine, ends the process with an index out of range.
\<close>

theorem pending_service_aborts:
  "getMetricArguments
     (sampleWorld (Some (sampleClient [web, sampleService ''db'' ''LoadBalancer'' []]), None)
        (steadyBackend 3))
     1000 (hd metrics) (sampleService ''db'' ''LoadBalancer'' [])
     = Inl IndexOutOfRange
   \<and> collectMetrics
       (sampleWorld (Some (sampleClient [web, sampleService ''db'' ''LoadBalancer'' []]), None)
          (steadyBackend 3))
       (replicate 26 (0, 1000)) emptyRegistry
     = Aborted IndexOutOfRange"
proof -
  let ?w = "sampleWorld (Some (sampleClient [web, sampleService ''db'' ''LoadBalancer'' []]), None)
    (steadyBackend 3)"
  have "case collectMetrics ?w (replicate 26 (0, 1000)) emptyRegistry of
          Aborted f \<Rightarrow> f = IndexOutOfRange
        | Waiting st \<Rightarrow> False
        | Done st \<Rightarrow> False"
    by code_simp
  then have "collectMetrics ?w (replicate 26 (0, 1000)) emptyRegistry = Aborted IndexOutOfRange"
    by (cases "collectMetrics ?w (replicate 26 (0, 1000)) emptyRegistry") simp_all
  moreover have "getMetricArguments ?w 1000 (hd metrics) (sampleService ''db'' ''LoadBalancer'' [])
      = Inl IndexOutOfRange"
    by (simp add: getMetricArguments_def sampleService_def)
  ultimately show ?thesis by simp
qed

section \<open>Exported Metric Set\<close>

lemma metrics_shape: "metrics = map entryOf catalogShape"
  by (simp add: metrics_def catalogShape_def entryOf_def)

lemma metrics_entry:
  assumes "m \<in> set metrics"
  obtains mn st sh where "(mn, st, sh) \<in> set catalogShape"
    and "MetricName m = mn" and "Statistic m = st" and "Prometheus m = sinkOf sh"
proof -
  from assms obtain x where x: "x \<in> set catalogShape" "m = entryOf x"
    unfolding metrics_shape by auto
  obtain mn st sh where "x = (mn, st, sh)" by (cases x)
  with x that show ?thesis by (auto simp: entryOf_def)
qed

lemma surge_shape:
  "(mn, st, sh) \<in> set catalogShape \<Longrightarrow>
   (mn = ''SurgeQueueLength'') = (\<exists>pre. sh = CounterSink surgeQueueLength pre)"
  by (auto simp: catalogShape_def)

lemma surge_entry:
  "(''SurgeQueueLength'', st, sh) \<in> set catalogShape \<Longrightarrow>
   st = ''Maximum'' \<and> sh = CounterSink surgeQueueLength []"
  by (auto simp: catalogShape_def)

lemma gauge_shape:
  "(mn, st, GaugeSink fam) \<in> set catalogShape \<Longrightarrow>
   (mn = ''HealthyHostCount'' \<and> fam = healthyHostCount)
   \<or> (mn = ''UnHealthyHostCount'' \<and> fam = unhealthyHostCount)"
  by (auto simp: catalogShape_def)

lemma not_gauge_shape:
  "(mn, st, sh) \<in> set catalogShape \<Longrightarrow> \<forall>fam. sh \<noteq> GaugeSink fam \<Longrightarrow>
   mn \<noteq> ''HealthyHostCount'' \<and> mn \<noteq> ''UnHealthyHostCount''"
  by (auto simp: catalogShape_def)

lemma getMetric_effect:
  assumes "m \<in> set metrics" and "getMetric w now m s reg = Inr reg'"
  obtains e sv n v st sh where
    "getMetricArguments w now m s = Inr (e, Some sv, Some n, v)"
    and "(MetricName m, st, sh) \<in> set catalogShape"
    and "sinkOf sh e (Some sv) (Some n) v reg = Inr reg'"
proof -
  from assms(1) obtain mn st sh where c: "(mn, st, sh) \<in> set catalogShape"
    and m: "MetricName m = mn" "Prometheus m = sinkOf sh"
    by (rule metrics_entry)
  from assms(2) obtain e svo no v where a: "getMetricArguments w now m s = Inr (e, svo, no, v)"
    and p: "sinkOf sh e svo no v reg = Inr reg'"
    unfolding getMetric_def m(2) by (auto split: sum.splits)
  from p obtain sv n where "svo = Some sv" "no = Some n"
    by (cases sh) (auto simp: deref2_def split: option.splits)
  with a p c m that show ?thesis by blast
qed

lemma counterSink_effect:
  assumes "sinkOf (CounterSink fam pre) e (Some sv) (Some n) v reg = Inr reg'"
  shows "0 \<le> v" and "gauges reg' = gauges reg"
    and "counters reg' = (counters reg)((fam, pre @ [e, sv, n]) \<mapsto>
            counterValue reg (fam, pre @ [e, sv, n]) + v)"
  using assms by (auto simp: deref2_def counterAdd_def split: if_splits)

lemma gaugeSink_effect:
  assumes "sinkOf (GaugeSink fam) e (Some sv) (Some n) v reg = Inr reg'"
  shows "counters reg' = counters reg"
    and "gauges reg' = (gauges reg)((fam, [e, sv, n]) \<mapsto> v)"
  using assms by (auto simp: deref2_def gaugeSet_def)

lemma histogramSink_effect:
  assumes "sinkOf (HistogramSink fam) e (Some sv) (Some n) v reg = Inr reg'"
  shows "counters reg' = counters reg" and "gauges reg' = gauges reg"
  using assms by (auto simp: deref2_def histogramObserve_def)

lemma countersLe_refl: "countersLe reg reg"
  by (simp add: countersLe_def)

lemma countersLe_trans: "countersLe a b \<Longrightarrow> countersLe b c \<Longrightarrow> countersLe a c"
  unfolding countersLe_def by (meson order_trans)

lemma step_countersLe:
  assumes "m \<in> set metrics" and "getMetric w now m s reg = Inr reg'"
  shows "countersLe reg reg'"
proof -
  from assms obtain e sv n v st sh where
    p: "sinkOf sh e (Some sv) (Some n) v reg = Inr reg'"
    by (rule getMetric_effect)
  show ?thesis
  proof (cases sh)
    case (CounterSink fam pre)
    with p show ?thesis
      using counterSink_effect [of fam pre e sv n v reg reg']
      by (auto simp: countersLe_def counterValue_def)
  next
    case (GaugeSink fam)
    with p show ?thesis
      using gaugeSink_effect [of fam e sv n v reg reg'] by (simp add: countersLe_def)
  next
    case (HistogramSink fam)
    with p show ?thesis
      using histogramSink_effect [of fam e sv n v reg reg'] by (simp add: countersLe_def)
  qed
qed

lemma step_surge:
  assumes "m \<in> set metrics" and "getMetric w now m s reg = Inr reg'"
  shows "counterValue reg' (surgeQueueLength, lvs)
    = counterValue reg (surgeQueueLength, lvs) + surgeAdded w lvs ((m, s), now)"
proof -
  from assms obtain e sv n v st sh where
    a: "getMetricArguments w now m s = Inr (e, Some sv, Some n, v)"
    and c: "(MetricName m, st, sh) \<in> set catalogShape"
    and p: "sinkOf sh e (Some sv) (Some n) v reg = Inr reg'"
    by (rule getMetric_effect)
  show ?thesis
  proof (cases "MetricName m = ''SurgeQueueLength''")
    case True
    with c have sh: "sh = CounterSink surgeQueueLength []" using surge_entry by metis
    show ?thesis
      using counterSink_effect(3) [OF p [unfolded sh]] True a
      by (simp add: surgeAdded_def counterValue_def)
  next
    case False
    then have no: "\<And>pre. sh \<noteq> CounterSink surgeQueueLength pre"
      using surge_shape [OF c] by blast
    have "counters reg' (surgeQueueLength, lvs) = counters reg (surgeQueueLength, lvs)"
    proof (cases sh)
      case (CounterSink fam pre)
      with no have "fam \<noteq> surgeQueueLength" by blast
      then show ?thesis
        using counterSink_effect(3) [OF p [unfolded CounterSink]] by simp
    next
      case (GaugeSink fam)
      then show ?thesis using gaugeSink_effect(1) [OF p [unfolded GaugeSink]] by simp
    next
      case (HistogramSink fam)
      then show ?thesis using histogramSink_effect(1) [OF p [unfolded HistogramSink]] by simp
    qed
    with False show ?thesis by (simp add: surgeAdded_def counterValue_def)
  qed
qed

lemma step_gauges:
  assumes "m \<in> set metrics" and "getMetric w now m s reg = Inr reg'"
  shows "gauges reg' = (case gaugeWritten w ((m, s), now) of
            None \<Rightarrow> gauges reg
          | Some (k, v) \<Rightarrow> (gauges reg)(k \<mapsto> v))"
proof -
  from assms obtain e sv n v st sh where
    a: "getMetricArguments w now m s = Inr (e, Some sv, Some n, v)"
    and c: "(MetricName m, st, sh) \<in> set catalogShape"
    and p: "sinkOf sh e (Some sv) (Some n) v reg = Inr reg'"
    by (rule getMetric_effect)
  show ?thesis
  proof (cases sh)
    case (CounterSink fam pre)
    then have "MetricName m \<noteq> ''HealthyHostCount'' \<and> MetricName m \<noteq> ''UnHealthyHostCount''"
      using not_gauge_shape [OF c] by simp
    then show ?thesis
      using counterSink_effect(2) [OF p [unfolded CounterSink]] a by (simp add: gaugeWritten_def)
  next
    case (GaugeSink fam)
    from gauge_shape [OF c [unfolded GaugeSink]] show ?thesis
      using gaugeSink_effect(2) [OF p [unfolded GaugeSink]] a
      by (auto simp: gaugeWritten_def)
  next
    case (HistogramSink fam)
    then have "MetricName m \<noteq> ''HealthyHostCount'' \<and> MetricName m \<noteq> ''UnHealthyHostCount''"
      using not_gauge_shape [OF c] by simp
    then show ?thesis
      using histogramSink_effect(2) [OF p [unfolded HistogramSink]] a by (simp add: gaugeWritten_def)
  qed
qed

lemma run_preserves:
  assumes step: "\<And>reg hist m s now reg'.
      Q reg hist \<Longrightarrow> m \<in> set metrics \<Longrightarrow> getMetric w now m s reg = Inr reg' \<Longrightarrow>
      Q reg' (hist @ [((m, s), now)])"
  shows "run w sched st = Inr st' \<Longrightarrow> \<forall>t\<in>set (pending st). fst t \<in> set metrics \<Longrightarrow>
    Q (registry st) (finished st) \<Longrightarrow> Q (registry st') (finished st')"
proof (induction sched arbitrary: st)
  case Nil
  then show ?case by simp
next
  case (Cons x sched)
  obtain i now where x: "x = (i, now)" by (cases x)
  show ?case
  proof (cases "i < length (pending st)")
    case True
    with Cons.prems(1) obtain reg' where
      g: "getMetric w now (fst (pending st ! i)) (snd (pending st ! i)) (registry st) = Inr reg'"
      unfolding x by (auto split: sum.splits)
    let ?st = "\<lparr>pending = take i (pending st) @ drop (Suc i) (pending st), wg = wg st - 1,
                registry = reg', finished = finished st @ [(pending st ! i, now)]\<rparr>"
    have r: "run w sched ?st = Inr st'" using Cons.prems(1) True g unfolding x by simp
    have "fst (pending st ! i) \<in> set metrics" using Cons.prems(2) True by simp
    from step [OF Cons.prems(3) this g]
    have q: "Q (registry ?st) (finished ?st)" by simp
    have "\<forall>t\<in>set (pending ?st). fst t \<in> set metrics"
      using Cons.prems(2) set_without_nth_subset [of i "pending st"] by auto
    from Cons.IH [OF r this q] show ?thesis .
  next
    case False
    with Cons show ?thesis unfolding x by simp
  qed
qed

lemma collectMetrics_preserves:
  assumes step: "\<And>reg hist m s now reg'.
      Q reg hist \<Longrightarrow> m \<in> set metrics \<Longrightarrow> getMetric w now m s reg = Inr reg' \<Longrightarrow>
      Q reg' (hist @ [((m, s), now)])"
    and "collectMetrics w sched reg = Done st \<or> collectMetrics w sched reg = Waiting st"
    and "Q reg []"
  shows "Q (registry st) (finished st)"
proof -
  from assms(2) obtain services where
    r: "run w sched \<lparr>pending = tasksOf services, wg = int (length services * length metrics),
          registry = reg, finished = []\<rparr> = Inr st"
    by (auto simp: collectMetrics_def split: sum.splits if_splits)
  show ?thesis
    using run_preserves [of Q w sched _ st, OF step r] assms(3) tasksOf_catalog by simp
qed

lemma lastWritten_snoc:
  "lastWritten w k (hist @ [e])
     = (case gaugeWritten w e of
          None \<Rightarrow> lastWritten w k hist
        | Some (k', v) \<Rightarrow> if k' = k then Some v else lastWritten w k hist)"
  by (induction hist) (auto split: option.splits)

lemma cycle_countersLe:
  assumes "collectMetrics w sched reg = Done st \<or> collectMetrics w sched reg = Waiting st"
  shows "countersLe reg (registry st)"
  by (rule collectMetrics_preserves [where Q = "\<lambda>r hist. countersLe reg r", OF _ assms])
     (auto intro: countersLe_trans step_countersLe countersLe_refl)

lemma cycle_surge:
  assumes "collectMetrics w sched reg = Done st"
  shows "counterValue (registry st) (surgeQueueLength, lvs)
    = counterValue reg (surgeQueueLength, lvs) + sum_list (map (surgeAdded w lvs) (finished st))"
  by (rule collectMetrics_preserves [where Q = "\<lambda>r hist. counterValue r (surgeQueueLength, lvs)
        = counterValue reg (surgeQueueLength, lvs) + sum_list (map (surgeAdded w lvs) hist)",
        OF _ disjI1 [OF assms]])
     (simp_all add: step_surge)

lemma cycle_gauges:
  assumes "collectMetrics w sched reg = Done st"
  shows "gauges (registry st) k
    = (case lastWritten w k (finished st) of Some v \<Rightarrow> Some v | None \<Rightarrow> gauges reg k)"
proof -
  have "\<forall>k. gauges (registry st) k
    = (case lastWritten w k (finished st) of Some v \<Rightarrow> Some v | None \<Rightarrow> gauges reg k)"
    by (rule collectMetrics_preserves [where Q = "\<lambda>r hist. \<forall>k. gauges r k
        = (case lastWritten w k hist of Some v \<Rightarrow> Some v | None \<Rightarrow> gauges reg k)",
        OF _ disjI1 [OF assms]])
       (auto simp: step_gauges lastWritten_snoc split: option.splits)
  then show ?thesis by blast
qed

lemma finalRegistry_Cons:
  "finalRegistry reg (st # states) = finalRegistry (registry st) states"
  by (simp add: finalRegistry_def)

lemma mainLoop_countersLe:
  "countersLe reg (finalRegistry reg (fst (snd (mainLoop its clock reg))))"
proof (induction its arbitrary: clock reg)
  case Nil
  then show ?case by (simp add: finalRegistry_def countersLe_refl)
next
  case (Cons x rest)
  obtain w sched D where x: "x = (w, sched, D)" by (cases x)
  show ?case
  proof (cases "collectMetrics w sched reg")
    case (Done st)
    show ?thesis unfolding x
      using cycle_countersLe [OF disjI1 [OF Done]]
        Cons.IH [of "registry st" "clock + D + Sleep (Minute - Sub (clock + D) clock)"]
      by (simp only: mainLoop_Done_parts [OF Done] finalRegistry_Cons) (rule countersLe_trans)
  qed (simp_all add: x mainLoop_stopped finalRegistry_def countersLe_refl)
qed

lemma mainLoop_surge:
  "counterValue (finalRegistry reg (fst (snd (mainLoop its clock reg)))) (surgeQueueLength, lvs)
     = counterValue reg (surgeQueueLength, lvs)
       + surgeTotal lvs its (fst (snd (mainLoop its clock reg)))"
proof (induction its arbitrary: clock reg)
  case Nil
  then show ?case by (simp add: finalRegistry_def)
next
  case (Cons x rest)
  obtain w sched D where x: "x = (w, sched, D)" by (cases x)
  show ?case
  proof (cases "collectMetrics w sched reg")
    case (Done st)
    show ?thesis unfolding x
      using cycle_surge [OF Done, of lvs]
        Cons.IH [of "registry st" "clock + D + Sleep (Minute - Sub (clock + D) clock)"]
      by (simp only: mainLoop_Done_parts [OF Done] finalRegistry_Cons surgeTotal.simps)
  qed (simp_all add: x mainLoop_stopped finalRegistry_def)
qed

lemma one_surge_entry:
  "length (filter (\<lambda>m. MetricName m = ''SurgeQueueLength'') metrics) = 1"
  by (simp add: metrics_def)

lemma surge_tasks_of:
  "length (filter (\<lambda>t. MetricName (fst t) = ''SurgeQueueLength'' \<and> snd t = s) (tasksOf services))
     = count_list services s"
proof (induction services)
  case Nil
  then show ?case by (simp add: tasksOf_def)
next
  case (Cons x xs)
  have "filter (\<lambda>t. MetricName (fst t) = ''SurgeQueueLength'' \<and> snd t = s)
          (map (\<lambda>metric. (metric, x)) metrics)
      = (if x = s then map (\<lambda>metric. (metric, x))
           (filter (\<lambda>m. MetricName m = ''SurgeQueueLength'') metrics) else [])"
    by (simp add: filter_map comp_def)
  then have "length (filter (\<lambda>t. MetricName (fst t) = ''SurgeQueueLength'' \<and> snd t = s)
          (map (\<lambda>metric. (metric, x)) metrics)) = (if x = s then 1 else 0)"
    by (simp add: one_surge_entry)
  with Cons show ?case by (simp add: tasksOf_def)
qed

lemma surge_tasks_finished:
  assumes "getAllServices w = Inr services" and "collectMetrics w sched reg = Done st"
  shows "length (filter (\<lambda>e. MetricName (fst (fst e)) = ''SurgeQueueLength'' \<and> snd (fst e) = s)
            (finished st)) = count_list services s"
proof -
  let ?P = "\<lambda>t :: task. MetricName (fst t) = ''SurgeQueueLength'' \<and> snd t = s"
  have "length (filter (?P \<circ> fst) (finished st)) = length (filter ?P (map fst (finished st)))"
    by (simp add: filter_map)
  also have "\<dots> = size (filter_mset ?P (mset (map fst (finished st))))"
    by (simp only: mset_filter [symmetric] size_mset)
  also have "\<dots> = size (filter_mset ?P (mset (tasksOf services)))"
    by (simp only: cycle_done_history(2) [OF assms])
  also have "\<dots> = length (filter ?P (tasksOf services))"
    by (simp only: mset_filter [symmetric] size_mset)
  finally show ?thesis by (simp add: surge_tasks_of comp_def)
qed

lemma surge_in_catalog:
  "\<exists>m\<in>set metrics. MetricName m = ''SurgeQueueLength''"
  by (simp add: metrics_def)

lemma surge_catalog_entry:
  assumes "m \<in> set metrics" and "MetricName m = ''SurgeQueueLength''"
  shows "Statistic m = ''Maximum'' \<and> Prometheus m = sinkOf (CounterSink surgeQueueLength [])"
proof -
  from assms(1) obtain mn st sh where c: "(mn, st, sh) \<in> set catalogShape"
    and m: "MetricName m = mn" "Statistic m = st" "Prometheus m = sinkOf sh"
    by (rule metrics_entry)
  with assms(2) surge_entry [of st sh] show ?thesis by simp
qed

text \<open>
  Claim C9. A counter series that exists when some iterations of the loop begin still
  exists, with a value that is no smaller, after the last cycle of them that returned;
  the same holds from the beginning of a cycle to the moment it returns and to every
  moment it is blocked in \<^verbatim>\<open>wg.Wait\<close>. After a cycle that returned, a gauge series
  that a goroutine of the cycle set holds the number of the latest of these writes,
  whatever it held before; a gauge series that no goroutine of the cycle set holds what
  it held before.
\<close>

theorem counters_grow_gauges_overwrite:
  "(\<forall>k c. counters reg k = Some c \<longrightarrow>
      (\<exists>c'. counters (finalRegistry reg (fst (snd (mainLoop its clock reg)))) k = Some c' \<and> c \<le> c'))
   \<and> (\<forall>st k c. (collectMetrics w sched reg = Done st \<or> collectMetrics w sched reg = Waiting st)
        \<and> counters reg k = Some c \<longrightarrow>
        (\<exists>c'. counters (registry st) k = Some c' \<and> c \<le> c'))
   \<and> (\<forall>st k. collectMetrics w sched reg = Done st \<longrightarrow>
        gauges (registry st) k
          = (case lastWritten w k (finished st) of Some v \<Rightarrow> Some v | None \<Rightarrow> gauges reg k))"
proof -
  have "countersLe reg (finalRegistry reg (fst (snd (mainLoop its clock reg))))"
    by (rule mainLoop_countersLe)
  moreover have "countersLe reg (registry st)"
    if "collectMetrics w sched reg = Done st \<or> collectMetrics w sched reg = Waiting st" for st
    using that by (rule cycle_countersLe)
  ultimately show ?thesis
    using cycle_gauges [of w sched reg] unfolding countersLe_def by blast
qed

theorem counters_grow_gauges_overwrite_witness:
  "counters firstCycle (requestCount, webLabels) = Some 3
   \<and> (\<exists>c'. counters
          (finalRegistry firstCycle
             (fst (snd (mainLoop [(webWorld 2, replicate 13 (0, 61000), 2000000000)]
                          60000000000 firstCycle))))
          (requestCount, webLabels) = Some c' \<and> 3 \<le> c')
   \<and> gauges firstCycle (healthyHostCount, webLabels) = Some 3
   \<and> (\<exists>st. collectMetrics (webWorld 2) (replicate 13 (0, 61000)) firstCycle = Done st
          \<and> (\<exists>c'. counters (registry st) (requestCount, webLabels) = Some c' \<and> 3 \<le> c')
          \<and> lastWritten (webWorld 2) (healthyHostCount, webLabels) (finished st) = Some 2
          \<and> gauges (registry st) (healthyHostCount, webLabels) = Some 2)"
proof -
  have a: "counters firstCycle (requestCount, webLabels) = Some 3"
    by code_simp
  have b: "gauges firstCycle (healthyHostCount, webLabels) = Some 3"
    by code_simp
  have "case collectMetrics (webWorld 2) (replicate 13 (0, 61000)) firstCycle of
          Done st \<Rightarrow> lastWritten (webWorld 2) (healthyHostCount, webLabels) (finished st) = Some 2
        | Waiting st \<Rightarrow> False
        | Aborted f \<Rightarrow> False"
    by code_simp
  then obtain st where
    d: "collectMetrics (webWorld 2) (replicate 13 (0, 61000)) firstCycle = Done st"
    and l: "lastWritten (webWorld 2) (healthyHostCount, webLabels) (finished st) = Some 2"
    by (cases "collectMetrics (webWorld 2) (replicate 13 (0, 61000)) firstCycle") simp_all
  note t = counters_grow_gauges_overwrite [of firstCycle
      "[(webWorld 2, replicate 13 (0, 61000), 2000000000)]" 60000000000
      "webWorld 2" "replicate 13 (0, 61000)"]
  from t a have 1: "\<exists>c'. counters
          (finalRegistry firstCycle
             (fst (snd (mainLoop [(webWorld 2, replicate 13 (0, 61000), 2000000000)]
                          60000000000 firstCycle))))
          (requestCount, webLabels) = Some c' \<and> 3 \<le> c'"
    by blast
  from t a d have 2: "\<exists>c'. counters (registry st) (requestCount, webLabels) = Some c' \<and> 3 \<le> c'"
    by blast
  from t d l have 3: "gauges (registry st) (healthyHostCount, webLabels) = Some 2"
    by simp
  from 1 2 3 a b d l show ?thesis by blast
qed

text \<open>
  Claim C10. The catalog has an entry \<^verbatim>\<open>SurgeQueueLength\<close>; it asks for the statistic
  \<^verbatim>\<open>Maximum\<close> and adds the number to the counter vector \<^verbatim>\<open>surgeQueueLength\<close>,
  exported as \<^verbatim>\<open>urd_surge_queue_length\<close>. A cycle that returned ran this entry once
  for each service discovered. After the cycles of the loop that returned, a series of
  the vector holds what it held before plus the sum, over these cycles, of the maxima
  their goroutines fetched for it.
\<close>

theorem surge_queue_length_accumulates:
  "(\<exists>m\<in>set metrics. MetricName m = ''SurgeQueueLength'')
   \<and> (\<forall>m\<in>set metrics. MetricName m = ''SurgeQueueLength'' \<longrightarrow>
         Statistic m = ''Maximum'' \<and> Prometheus m = sinkOf (CounterSink surgeQueueLength []))
   \<and> familyName surgeQueueLength = ''urd_surge_queue_length''
   \<and> familyKind surgeQueueLength = CounterVec
   \<and> (\<forall>st services s. getAllServices w = Inr services \<and> collectMetrics w sched reg = Done st \<longrightarrow>
         length (filter (\<lambda>e. MetricName (fst (fst e)) = ''SurgeQueueLength'' \<and> snd (fst e) = s)
            (finished st)) = count_list services s)
   \<and> counterValue (finalRegistry reg (fst (snd (mainLoop its clock reg)))) (surgeQueueLength, lvs)
       = counterValue reg (surgeQueueLength, lvs)
         + surgeTotal lvs its (fst (snd (mainLoop its clock reg)))"
  using surge_in_catalog surge_catalog_entry mainLoop_surge [of reg its clock lvs]
    surge_tasks_finished [of w _ sched reg]
  by simp

theorem surge_queue_length_accumulates_witness:
  "Statistic (metrics ! 11) = ''Maximum''
   \<and> (\<exists>st. collectMetrics (webWorld 3) (replicate 13 (0, 1000)) emptyRegistry = Done st
        \<and> length (filter (\<lambda>e. MetricName (fst (fst e)) = ''SurgeQueueLength'' \<and> snd (fst e) = web)
            (finished st)) = 1)
   \<and> surgeTotal webLabels
        [(webWorld 3, replicate 13 (0, 1000), 2000000000),
         (webWorld 4, replicate 13 (0, 61000), 2000000000)]
        (fst (snd (mainLoop
           [(webWorld 3, replicate 13 (0, 1000), 2000000000),
            (webWorld 4, replicate 13 (0, 61000), 2000000000)] 0 emptyRegistry))) = 3 + 4
   \<and> counterValue
        (finalRegistry emptyRegistry
           (fst (snd (mainLoop
              [(webWorld 3, replicate 13 (0, 1000), 2000000000),
               (webWorld 4, replicate 13 (0, 61000), 2000000000)] 0 emptyRegistry))))
        (surgeQueueLength, webLabels) = 7"
proof -
  let ?its = "[(webWorld 3, replicate 13 (0, 1000), 2000000000),
               (webWorld 4, replicate 13 (0, 61000), 2000000000)]
    :: (World \<times> (nat \<times> int) list \<times> int) list"
  have m: "metrics ! 11 \<in> set metrics" "MetricName (metrics ! 11) = ''SurgeQueueLength''"
    by (simp_all add: metrics_def)
  have "isDone (collectMetrics (webWorld 3) (replicate 13 (0, 1000)) emptyRegistry)"
    by code_simp
  then obtain st where
    d: "collectMetrics (webWorld 3) (replicate 13 (0, 1000)) emptyRegistry = Done st"
    by (cases "collectMetrics (webWorld 3) (replicate 13 (0, 1000)) emptyRegistry") simp_all
  have a: "getAllServices (webWorld 3) = Inr [web]"
    by (simp add: webWorld_def getAllServices_def loadClient_def sampleWorld_def
        sampleClient_def sampleService_def web_def)
  have s: "surgeTotal webLabels ?its (fst (snd (mainLoop ?its 0 emptyRegistry))) = 3 + 4"
    by code_simp
  have z: "counterValue emptyRegistry (surgeQueueLength, webLabels) = 0"
    by (simp add: counterValue_def emptyRegistry_def)
  note t = surge_queue_length_accumulates [of "webWorld 3" "replicate 13 (0, 1000)"
      emptyRegistry ?its 0 webLabels]
  from t m have 1: "Statistic (metrics ! 11) = ''Maximum''" by blast
  from t a d have 2: "length (filter (\<lambda>e. MetricName (fst (fst e)) = ''SurgeQueueLength''
      \<and> snd (fst e) = web) (finished st)) = count_list [web] web"
    by blast
  from t s z have 3: "counterValue
        (finalRegistry emptyRegistry (fst (snd (mainLoop ?its 0 emptyRegistry))))
        (surgeQueueLength, webLabels) = 7"
    by simp
  from 1 2 3 d s show ?thesis by auto
qed

end
